theory Spec2Isabelle
  imports Main "HOL-Library.Sublist" "HOL-Library.AList" "HOL-Library.Multiset"
begin

section \<open>Time\<close>

text \<open>
  The script parses every timestamp with \<^verbatim>\<open>datetime.fromisoformat\<close> after replacing the
  \<^verbatim>\<open>Z\<close> suffix by \<^verbatim>\<open>+00:00\<close>, so every datetime it compares is an aware UTC instant with
  microsecond resolution. An instant is modelled as the number of microseconds since the
  epoch; the range limits of Python's \<^verbatim>\<open>datetime\<close> (years 1 to 9999) are not modelled.
  A calendar date is the number of whole days since the epoch: \<^verbatim>\<open>dt.date()\<close> of a UTC
  instant, and also the first ten characters of its ISO text.
\<close>

type_synonym datetime = int

definition minutes :: "int \<Rightarrow> int" where
  "minutes n = n * 60000000"

definition date_of :: "datetime \<Rightarrow> int" where
  "date_of t = t div 86400000000"

section \<open>Raw records\<close>

text \<open>
  The payloads of the API, restricted to the keys the script reads. A key read with
  \<^verbatim>\<open>.get\<close> is an option (\<open>None\<close>: absent, null or empty); a key read with \<^verbatim>\<open>[...]\<close> is
  always there. \<open>pr_repository\<close> is the tag that \<^verbatim>\<open>fetch_pull_requests\<close> writes into
  the record.
\<close>

record pull_request =
  pr_number :: nat
  pr_login :: string
  pr_avatar_url :: "string option"
  pr_user_url :: "string option"
  pr_title :: "string option"
  pr_html_url :: "string option"
  pr_created_at :: datetime
  pr_updated_at :: datetime
  pr_merged_at :: "datetime option"
  pr_repository :: "string option"

record review =
  rv_id :: "nat option"
  rv_login :: string
  rv_avatar_url :: "string option"
  rv_user_url :: "string option"
  rv_state :: "string option"
  rv_submitted_at :: "datetime option"
  rv_html_url :: "string option"
  rv_pull_request_url :: "string option"
  rv_pull_request_title :: "string option"
  rv_repository :: "string option"

record issue =
  is_pull_request :: bool
  is_created_at :: datetime
  is_closed_at :: "datetime option"
  is_state :: string
  is_repository :: "string option"

section \<open>Prior snapshot and watermark\<close>

datatype 'a field = Absent | Malformed | Value 'a

datatype exn = KeyError | ValueError | AttributeError | SystemExit

text \<open>
  \<^verbatim>\<open>process_hackathon\<close>, the lines that set \<^verbatim>\<open>since\<close>: \<open>existing\<close> is what
  \<^verbatim>\<open>load_existing_data\<close> returned (\<open>None\<close>: no file, or a file that does not load), given
  by the \<^verbatim>\<open>lastUpdated\<close> key of the document. A text that \<^verbatim>\<open>fromisoformat\<close> rejects
  raises \<^verbatim>\<open>ValueError\<close>.
\<close>

definition since_of :: "datetime field option \<Rightarrow> exn + datetime option" where
  "since_of existing =
     (case existing of
        None \<Rightarrow> Inr None
      | Some Absent \<Rightarrow> Inr None
      | Some Malformed \<Rightarrow> Inl ValueError
      | Some (Value last_updated) \<Rightarrow> Inr (Some (last_updated - minutes 5)))"

section \<open>Fetching pull requests\<close>

text \<open>
  \<^verbatim>\<open>fetch_pull_requests\<close>: \<open>all_prs\<close> is the listing that \<^verbatim>\<open>fetch_all_pages\<close> returned
  (sorted by the API by update time when \<open>since\<close> is set, by creation time otherwise).
\<close>

definition relevant_pr :: "datetime \<Rightarrow> datetime \<Rightarrow> pull_request \<Rightarrow> bool" where
  "relevant_pr start_dt end_dt pr =
     (let relevant_by_creation = (start_dt \<le> pr_created_at pr \<and> pr_created_at pr \<le> end_dt);
          relevant_by_merge =
            (case pr_merged_at pr of
               None \<Rightarrow> False
             | Some merged_at \<Rightarrow> start_dt \<le> merged_at \<and> merged_at \<le> end_dt)
      in relevant_by_creation \<or> relevant_by_merge)"

fun filter_prs ::
  "string \<Rightarrow> datetime \<Rightarrow> datetime \<Rightarrow> datetime option \<Rightarrow> pull_request list \<Rightarrow> pull_request list"
where
  "filter_prs path start_dt end_dt since [] = []"
| "filter_prs path start_dt end_dt since (pr # rest) =
     (if (case since of None \<Rightarrow> False | Some w \<Rightarrow> pr_updated_at pr < w) then []
      else if relevant_pr start_dt end_dt pr
        then pr\<lparr>pr_repository := Some path\<rparr> # filter_prs path start_dt end_dt since rest
        else filter_prs path start_dt end_dt since rest)"

definition fetch_pull_requests ::
  "string \<Rightarrow> string \<Rightarrow> datetime \<Rightarrow> datetime \<Rightarrow> datetime option \<Rightarrow> pull_request list
     \<Rightarrow> pull_request list"
where
  "fetch_pull_requests owner repo start_dt end_dt since all_prs =
     filter_prs (owner @ ''/'' @ repo) start_dt end_dt since all_prs"

section \<open>Strings and dictionaries\<close>

text \<open>
  \<^verbatim>\<open>str.lower\<close> on the letters A to Z; \<^verbatim>\<open>pat in s\<close> is \<open>sublist pat s\<close> and
  \<^verbatim>\<open>s.endswith(pat)\<close> is \<open>suffix pat s\<close>. A Python \<^verbatim>\<open>dict\<close> is an association list in
  insertion order with one entry per key: \<open>AList.update\<close> stores a value (in place when the
  key is there, at the end otherwise) and \<open>AList.map_entry\<close> changes the value of a key
  that is there.
\<close>

definition lower_char :: "char \<Rightarrow> char" where
  "lower_char c =
     (if 65 \<le> (of_char c :: nat) \<and> (of_char c :: nat) \<le> 90
      then char_of ((of_char c :: nat) + 32) else c)"

definition lower :: "string \<Rightarrow> string" where
  "lower s = map lower_char s"

definition has_key :: "('k \<times> 'v) list \<Rightarrow> 'k \<Rightarrow> bool" where
  "has_key d k = (k \<in> fst ` set d)"

definition get_default :: "'a option \<Rightarrow> 'a \<Rightarrow> 'a" where
  "get_default v d = (case v of None \<Rightarrow> d | Some x \<Rightarrow> x)"

text \<open>\<^verbatim>\<open>sorted(xs, key=f, reverse=True)\<close>: the list is reversed, sorted by a stable
  ascending sort, and reversed again, so that equal keys keep their order.\<close>

definition sorted_reverse :: "('a \<Rightarrow> nat) \<Rightarrow> 'a list \<Rightarrow> 'a list" where
  "sorted_reverse f xs = rev (sort_key f (rev xs))"

section \<open>Statistics\<close>

record review_summary =
  sm_id :: "nat option"
  sm_state :: "string option"
  sm_submitted_at :: "datetime option"
  sm_html_url :: string
  sm_pull_request_url :: string
  sm_pull_request_title :: string

record participant =
  username :: string
  avatar :: string
  url :: string
  mergedCount :: nat
  prCount :: nat
  reviewCount :: nat
  reviews :: "review_summary list"

record repo_stat =
  st_total :: nat
  st_merged :: nat
  st_issues :: nat
  st_closedIssues :: nat

record daily =
  day_total :: nat
  day_merged :: nat

record stats =
  totalPRs :: nat
  mergedPRs :: nat
  totalIssues :: nat
  closedIssues :: nat
  participantCount :: nat
  leaderboard :: "participant list"
  reviewLeaderboard :: "participant list"
  repoStats :: "(string \<times> repo_stat) list"
  dailyActivity :: "(int \<times> daily) list"
  dailyMergedPRs :: "(int \<times> nat) list"

text \<open>The local variables of \<^verbatim>\<open>process_hackathon_stats\<close> that its loops update.\<close>

record agg =
  daily_activity :: "(int \<times> daily) list"
  participants :: "(string \<times> participant) list"
  repo_stats :: "(string \<times> repo_stat) list"
  total_prs :: nat
  merged_prs :: nat
  daily_merged_prs :: "(int \<times> nat) list"
  total_issues :: nat
  closed_issues :: nat

definition zero_stat :: repo_stat where
  "zero_stat = \<lparr>st_total = 0, st_merged = 0, st_issues = 0, st_closedIssues = 0\<rparr>"

definition zero_day :: daily where
  "zero_day = \<lparr>day_total = 0, day_merged = 0\<rparr>"

text \<open>The \<^verbatim>\<open>while current_date <= end_date\<close> loop that builds the daily activity map.\<close>

function build_daily :: "int \<Rightarrow> int \<Rightarrow> (int \<times> daily) list \<Rightarrow> (int \<times> daily) list" where
  "build_daily current_date end_date da =
     (if current_date \<le> end_date
      then build_daily (current_date + 1) end_date (AList.update current_date zero_day da)
      else da)"
  by pat_completeness auto
termination
  by (relation "measure (\<lambda>(c, e, d). nat (e + 1 - c))") auto

definition init_agg :: "datetime \<Rightarrow> datetime \<Rightarrow> string list \<Rightarrow> agg" where
  "init_agg start_dt end_dt repositories =
     \<lparr>daily_activity = build_daily (date_of start_dt) (date_of end_dt) [],
      participants = [],
      repo_stats = fold (\<lambda>r d. AList.update r zero_stat d) repositories [],
      total_prs = 0, merged_prs = 0, daily_merged_prs = [],
      total_issues = 0, closed_issues = 0\<rparr>"

definition is_bot :: "string \<Rightarrow> bool" where
  "is_bot u = (sublist ''[bot]'' u \<or> suffix ''bot'' (lower u))"

definition new_participant :: "string \<Rightarrow> string option \<Rightarrow> string option \<Rightarrow> participant" where
  "new_participant u avatar_url html_url =
     \<lparr>username = u, avatar = get_default avatar_url [],
      url = get_default html_url (''https://github.com/'' @ u),
      mergedCount = 0, prCount = 0, reviewCount = 0, reviews = []\<rparr>"

definition ensure_repo :: "string \<Rightarrow> (string \<times> repo_stat) list \<Rightarrow> (string \<times> repo_stat) list" where
  "ensure_repo repo_key rs =
     (if \<not> has_key rs repo_key then AList.update repo_key zero_stat rs else rs)"

text \<open>One round of the \<^verbatim>\<open>for pr in prs\<close> loop.\<close>

definition pr_step :: "datetime \<Rightarrow> datetime \<Rightarrow> pull_request \<Rightarrow> agg \<Rightarrow> agg" where
  "pr_step start_dt end_dt pr s =
     (let is_merged = (pr_merged_at pr \<noteq> None);
          u = pr_login pr;
          bot = is_bot u;
          title = get_default (pr_title pr) [];
          is_copilot = (sublist ''copilot'' (lower u) \<or> sublist ''copilot'' (lower title));
          repo_key = get_default (pr_repository pr) ''unknown'';
          rs1 = ensure_repo repo_key (repo_stats s);
          rs2 = AList.map_entry repo_key (\<lambda>st. st\<lparr>st_total := st_total st + 1\<rparr>) rs1;
          rs3 = (if is_merged
                 then AList.map_entry repo_key (\<lambda>st. st\<lparr>st_merged := st_merged st + 1\<rparr>) rs2
                 else rs2);
          created_at = pr_created_at pr;
          created_date = date_of created_at;
          da1 = (if has_key (daily_activity s) created_date \<and>
                    start_dt \<le> created_at \<and> created_at \<le> end_dt
                 then AList.map_entry created_date
                        (\<lambda>d. d\<lparr>day_total := day_total d + 1\<rparr>) (daily_activity s)
                 else daily_activity s);
          da2 = (case pr_merged_at pr of
                   None \<Rightarrow> da1
                 | Some m \<Rightarrow>
                     if has_key da1 (date_of m)
                     then AList.map_entry (date_of m)
                            (\<lambda>d. d\<lparr>day_merged := day_merged d + 1\<rparr>) da1
                     else da1);
          dm = (case pr_merged_at pr of
                  None \<Rightarrow> daily_merged_prs s
                | Some m \<Rightarrow> map_default (date_of m) 1 (\<lambda>n. n + 1) (daily_merged_prs s));
          ps = (if \<not> bot \<and> \<not> is_copilot
                then
                  (let ps1 = (if \<not> has_key (participants s) u
                              then AList.update u
                                     (new_participant u (pr_avatar_url pr) (pr_user_url pr))
                                     (participants s)
                              else participants s);
                       ps2 = AList.map_entry u (\<lambda>p. p\<lparr>prCount := prCount p + 1\<rparr>) ps1
                   in if is_merged
                      then AList.map_entry u (\<lambda>p. p\<lparr>mergedCount := mergedCount p + 1\<rparr>) ps2
                      else ps2)
                else participants s)
      in s\<lparr>daily_activity := da2, participants := ps, repo_stats := rs3,
            total_prs := total_prs s + 1,
            merged_prs := (if is_merged then merged_prs s + 1 else merged_prs s),
            daily_merged_prs := dm\<rparr>)"

text \<open>One round of the \<^verbatim>\<open>for review in all_reviews\<close> loop.\<close>

definition summary_of :: "review \<Rightarrow> review_summary" where
  "summary_of r =
     \<lparr>sm_id = rv_id r, sm_state = rv_state r, sm_submitted_at = rv_submitted_at r,
      sm_html_url = get_default (rv_html_url r) [],
      sm_pull_request_url =
        get_default (rv_pull_request_url r) (get_default (rv_html_url r) []),
      sm_pull_request_title = get_default (rv_pull_request_title r) []\<rparr>"

definition review_step :: "datetime \<Rightarrow> datetime \<Rightarrow> review \<Rightarrow> agg \<Rightarrow> agg" where
  "review_step start_dt end_dt r s =
     (let u = rv_login r;
          bot = is_bot u;
          is_copilot = sublist ''copilot'' (lower u);
          state = get_default (rv_state r) []
      in if bot \<or> is_copilot \<or> state = ''DISMISSED'' then s
         else case rv_submitted_at r of
           None \<Rightarrow> s
         | Some submitted_at \<Rightarrow>
             if \<not> (start_dt \<le> submitted_at \<and> submitted_at \<le> end_dt) then s
             else
               (let ps1 = (if \<not> has_key (participants s) u
                           then AList.update u
                                  (new_participant u (rv_avatar_url r) (rv_user_url r))
                                  (participants s)
                           else participants s);
                    ps2 = AList.map_entry u (\<lambda>p. p\<lparr>reviewCount := reviewCount p + 1\<rparr>) ps1;
                    ps3 = AList.map_entry u
                            (\<lambda>p. p\<lparr>reviews := reviews p @ [summary_of r]\<rparr>) ps2
                in s\<lparr>participants := ps3\<rparr>))"

text \<open>One round of the \<^verbatim>\<open>for issue in issues\<close> loop.\<close>

definition issue_step :: "issue \<Rightarrow> agg \<Rightarrow> agg" where
  "issue_step i s =
     (let repo_key = get_default (is_repository i) ''unknown'';
          rs1 = ensure_repo repo_key (repo_stats s);
          rs2 = AList.map_entry repo_key (\<lambda>st. st\<lparr>st_issues := st_issues st + 1\<rparr>) rs1
      in if is_state i = ''closed''
         then s\<lparr>repo_stats :=
                  AList.map_entry repo_key
                    (\<lambda>st. st\<lparr>st_closedIssues := st_closedIssues st + 1\<rparr>) rs2,
                total_issues := total_issues s + 1,
                closed_issues := closed_issues s + 1\<rparr>
         else s\<lparr>repo_stats := rs2, total_issues := total_issues s + 1\<rparr>)"

text \<open>The three loops, in the order of the source.\<close>

definition aggregate ::
  "pull_request list \<Rightarrow> review list \<Rightarrow> issue list \<Rightarrow> datetime \<Rightarrow> datetime \<Rightarrow> string list
     \<Rightarrow> agg"
where
  "aggregate prs all_reviews issues start_dt end_dt repositories =
     fold issue_step issues
       (fold (review_step start_dt end_dt) all_reviews
          (fold (pr_step start_dt end_dt) prs (init_agg start_dt end_dt repositories)))"

definition process_hackathon_stats ::
  "pull_request list \<Rightarrow> review list \<Rightarrow> issue list \<Rightarrow> datetime \<Rightarrow> datetime \<Rightarrow> string list
     \<Rightarrow> stats"
where
  "process_hackathon_stats prs all_reviews issues start_dt end_dt repositories =
     (let s = aggregate prs all_reviews issues start_dt end_dt repositories
      in \<lparr>totalPRs = total_prs s,
          mergedPRs = merged_prs s,
          totalIssues = total_issues s,
          closedIssues = closed_issues s,
          participantCount = length (participants s),
          leaderboard =
            sorted_reverse mergedCount
              (filter (\<lambda>p. mergedCount p > 0) (map snd (participants s))),
          reviewLeaderboard =
            sorted_reverse reviewCount
              (filter (\<lambda>p. reviewCount p > 0) (map snd (participants s))),
          repoStats = repo_stats s,
          dailyActivity = daily_activity s,
          dailyMergedPRs = daily_merged_prs s\<rparr>)"

section \<open>Notions used to state the properties\<close>

text \<open>
  A pull request credits its author when the login is no bot login and neither the login
  nor the title mentions Copilot; a review credits its reviewer when the login is no bot
  login and does not mention Copilot, the review is not dismissed, and it was submitted
  inside the closed event window.
\<close>

definition credits_pr :: "pull_request \<Rightarrow> bool" where
  "credits_pr pr \<longleftrightarrow>
     \<not> sublist ''[bot]'' (pr_login pr) \<and> \<not> suffix ''bot'' (lower (pr_login pr)) \<and>
     \<not> sublist ''copilot'' (lower (pr_login pr)) \<and>
     \<not> sublist ''copilot'' (lower (get_default (pr_title pr) []))"

definition credits_review :: "datetime \<Rightarrow> datetime \<Rightarrow> review \<Rightarrow> bool" where
  "credits_review start_dt end_dt r \<longleftrightarrow>
     \<not> sublist ''[bot]'' (rv_login r) \<and> \<not> suffix ''bot'' (lower (rv_login r)) \<and>
     \<not> sublist ''copilot'' (lower (rv_login r)) \<and>
     rv_state r \<noteq> Some ''DISMISSED'' \<and>
     (case rv_submitted_at r of None \<Rightarrow> False | Some t \<Rightarrow> start_dt \<le> t \<and> t \<le> end_dt)"

text \<open>Lazy insertion of a default entry followed by an update of the entry.\<close>

definition credit ::
  "string \<Rightarrow> participant \<Rightarrow> (participant \<Rightarrow> participant) \<Rightarrow> (string \<times> participant) list
     \<Rightarrow> (string \<times> participant) list"
where
  "credit u np f ps =
     AList.map_entry u f (if \<not> has_key ps u then AList.update u np ps else ps)"

text \<open>The elements of a list in the order of their first occurrence.\<close>

definition first_seen :: "'a list \<Rightarrow> 'a list" where
  "first_seen xs = fold (\<lambda>x acc. if x \<in> set acc then acc else acc @ [x]) xs []"

text \<open>The count a login has in a participants dictionary, zero when it has no entry.\<close>

definition count_of ::
  "(participant \<Rightarrow> 'a::zero) \<Rightarrow> (string \<times> participant) list \<Rightarrow> string \<Rightarrow> 'a" where
  "count_of f ps u = (case map_of ps u of None \<Rightarrow> 0 | Some p \<Rightarrow> f p)"

definition reviews_of :: "(string \<times> participant) list \<Rightarrow> string \<Rightarrow> review_summary list" where
  "reviews_of ps u = (case map_of ps u of None \<Rightarrow> [] | Some p \<Rightarrow> reviews p)"

text \<open>What one pull request and one review do to the participants dictionary.\<close>

definition pr_credit ::
  "pull_request \<Rightarrow> (string \<times> participant) list \<Rightarrow> (string \<times> participant) list" where
  "pr_credit pr ps =
     (if credits_pr pr
      then credit (pr_login pr)
             (new_participant (pr_login pr) (pr_avatar_url pr) (pr_user_url pr))
             (\<lambda>p. if pr_merged_at pr \<noteq> None
                   then p\<lparr>prCount := prCount p + 1, mergedCount := mergedCount p + 1\<rparr>
                   else p\<lparr>prCount := prCount p + 1\<rparr>) ps
      else ps)"

definition rv_credit ::
  "datetime \<Rightarrow> datetime \<Rightarrow> review \<Rightarrow> (string \<times> participant) list
     \<Rightarrow> (string \<times> participant) list"
where
  "rv_credit s e r ps =
     (if credits_review s e r
      then credit (rv_login r)
             (new_participant (rv_login r) (rv_avatar_url r) (rv_user_url r))
             (\<lambda>p. p\<lparr>reviewCount := reviewCount p + 1, reviews := reviews p @ [summary_of r]\<rparr>)
             ps
      else ps)"

text \<open>Every entry of a participants dictionary carries its key as user name.\<close>

definition named :: "(string \<times> participant) list \<Rightarrow> bool" where
  "named ps \<longleftrightarrow> (\<forall>x \<in> set ps. username (snd x) = fst x)"

section \<open>The rate-limited fetcher\<close>






section \<open>Processing one event\<close>

text \<open>
  One entry of the configuration document. \<^verbatim>\<open>main\<close> reads the keys with \<^verbatim>\<open>.get\<close>,
  \<^verbatim>\<open>process_hackathon\<close> reads slug, name and the two times with \<^verbatim>\<open>[...]\<close>. A time is
  absent, a text that \<^verbatim>\<open>fromisoformat\<close> rejects, or an instant.
\<close>

record hackathon =
  hk_slug :: "string option"
  hk_name :: "string option"
  hk_startTime :: "datetime field"
  hk_endTime :: "datetime field"
  hk_organization :: "string option"
  hk_repositories :: "string list"

record repo_meta =
  rm_full_name :: "string option"
  rm_description :: "string option"
  rm_stargazers_count :: nat
  rm_forks_count :: nat
  rm_language :: "string option"
  rm_html_url :: "string option"

text \<open>The snapshot document of one event; \<open>sn_repoData\<close> is the \<^verbatim>\<open>repoData\<close> key that
  \<^verbatim>\<open>process_hackathon\<close> adds to the statistics.\<close>

record snapshot =
  sn_lastUpdated :: "datetime field"
  sn_slug :: string
  sn_name :: string
  sn_startTime :: datetime
  sn_endTime :: datetime
  sn_repositories :: "string list"
  sn_stats :: stats
  sn_repoData :: "repo_meta list"

datatype stored = Corrupt | Doc snapshot

record summary =
  gs_lastUpdated :: datetime
  gs_repositories :: nat
  gs_hackathonName :: string
  gs_startTime :: "datetime field"
  gs_endTime :: "datetime field"
  gs_hackathons :: "(string \<times> string \<times> datetime field \<times> datetime field) list"

text \<open>
  The outside of the script during one run. A fetcher either raises or returns the listing
  that \<^verbatim>\<open>fetch_all_pages\<close> collected; the listing of an organization may differ from one
  call to the next (the second argument of \<open>w_org_repos\<close> counts the calls made before).
  \<open>w_set_order\<close> is the order in which Python iterates over a set of strings, given by
  the elements in the order of insertion. The clock does not advance during the run.
\<close>

datatype 'a fetch = Raises | Returns 'a

record world =
  w_now :: datetime
  w_set_order :: "string list \<Rightarrow> string list"
  w_org_repos :: "string \<Rightarrow> nat \<Rightarrow> string list fetch"
  w_pulls :: "bool \<Rightarrow> string \<Rightarrow> string \<Rightarrow> pull_request list fetch"
  w_reviews :: "string \<Rightarrow> string \<Rightarrow> nat \<Rightarrow> review list fetch"
  w_issues :: "string \<Rightarrow> string \<Rightarrow> issue list fetch"
  w_metadata :: "string \<Rightarrow> string \<Rightarrow> repo_meta option fetch"

text \<open>
  What a run changes: the snapshot files by slug, the organization cache that \<^verbatim>\<open>main\<close>
  creates, the summary file, and a log of the calls of \<^verbatim>\<open>fetch_org_repos\<close> and of the
  writes to the cache, in the order in which they happen.
\<close>

datatype org_event = Fetched string "string list fetch" | Cached string

fun is_fetch :: "org_event \<Rightarrow> bool" where
  "is_fetch (Fetched org r) = True"
| "is_fetch (Cached org) = False"

record run_state =
  files :: "(string \<times> stored) list"
  org_repos_cache :: "(string \<times> string list) list"
  org_log :: "org_event list"
  stats_json :: "summary option"

definition load_existing_data :: "run_state \<Rightarrow> string \<Rightarrow> snapshot option" where
  "load_existing_data st slug =
     (case map_of (files st) slug of
        None \<Rightarrow> None
      | Some Corrupt \<Rightarrow> None
      | Some (Doc d) \<Rightarrow> Some d)"

text \<open>\<^verbatim>\<open>s.split(c)\<close>.\<close>

fun split_on :: "char \<Rightarrow> string \<Rightarrow> string list" where
  "split_on c [] = [[]]"
| "split_on c (x # xs) =
     (if x = c then [] # split_on c xs
      else case split_on c xs of p # ps \<Rightarrow> (x # p) # ps | [] \<Rightarrow> [[x]])"

text \<open>\<^verbatim>\<open>fetch_issues\<close>, given the listing of the issues endpoint.\<close>

definition fetch_issues ::
  "string \<Rightarrow> string \<Rightarrow> datetime \<Rightarrow> datetime \<Rightarrow> issue list \<Rightarrow> issue list" where
  "fetch_issues owner repo start_dt end_dt all_items =
     map (\<lambda>item. item\<lparr>is_repository := Some (owner @ ''/'' @ repo)\<rparr>)
       (filter (\<lambda>item. \<not> is_pull_request item \<and>
                  ((start_dt \<le> is_created_at item \<and> is_created_at item \<le> end_dt) \<or>
                   (case is_closed_at item of
                      None \<Rightarrow> False
                    | Some closed_at \<Rightarrow> start_dt \<le> closed_at \<and> closed_at \<le> end_dt)))
          all_items)"

text \<open>\<^verbatim>\<open>process_hackathon\<close>, the organization listing: from the cache when the organization
  has an entry, fetched otherwise, and stored when it is not empty.\<close>

definition org_repos_of :: "world \<Rightarrow> string \<Rightarrow> run_state \<Rightarrow> string list \<times> run_state" where
  "org_repos_of w organization st =
     (case map_of (org_repos_cache st) organization of
        Some org_repos \<Rightarrow> (org_repos, st)
      | None \<Rightarrow>
          (case w_org_repos w organization (length (filter is_fetch (org_log st))) of
             Raises \<Rightarrow> ([], st\<lparr>org_log := org_log st @ [Fetched organization Raises]\<rparr>)
           | Returns org_repos \<Rightarrow>
               if org_repos \<noteq> []
               then (org_repos,
                     st\<lparr>org_repos_cache := AList.update organization org_repos (org_repos_cache st),
                        org_log := org_log st @
                          [Fetched organization (Returns org_repos), Cached organization]\<rparr>)
               else (org_repos,
                     st\<lparr>org_log := org_log st @ [Fetched organization (Returns org_repos)]\<rparr>)))"

text \<open>\<^verbatim>\<open>process_hackathon\<close>, the resolution of the repositories.\<close>

definition resolve_repositories ::
  "world \<Rightarrow> string list \<Rightarrow> string option \<Rightarrow> run_state \<Rightarrow> string list \<times> run_state" where
  "resolve_repositories w explicit_repos organization st =
     (let repositories = explicit_repos
      in case organization of
           None \<Rightarrow> (repositories, st)
         | Some org \<Rightarrow>
             if org = [] then (repositories, st)
             else
               (let (org_repos, st1) = org_repos_of w org st
                in if org_repos \<noteq> []
                   then (w_set_order w (repositories @ org_repos), st1)
                   else (repositories, st1)))"

definition prs_of_repo ::
  "world \<Rightarrow> datetime \<Rightarrow> datetime \<Rightarrow> datetime option \<Rightarrow> string \<Rightarrow> pull_request list" where
  "prs_of_repo w start_dt end_dt since repo_path =
     (case split_on CHR ''/'' repo_path of
        [owner, repo] \<Rightarrow>
          (case w_pulls w (since \<noteq> None) owner repo of
             Raises \<Rightarrow> []
           | Returns all_prs \<Rightarrow> fetch_pull_requests owner repo start_dt end_dt since all_prs)
      | _ \<Rightarrow> [])"

definition reviews_of_pr :: "world \<Rightarrow> pull_request \<Rightarrow> review list" where
  "reviews_of_pr w pr =
     (let repo_path = get_default (pr_repository pr) []
      in case split_on CHR ''/'' repo_path of
           [owner, repo] \<Rightarrow>
             (case w_reviews w owner repo (pr_number pr) of
                Raises \<Rightarrow> []
              | Returns rs \<Rightarrow>
                  map (\<lambda>r. r\<lparr>rv_repository := Some repo_path,
                              rv_pull_request_url := Some (get_default (pr_html_url pr) []),
                              rv_pull_request_title := Some (get_default (pr_title pr) [])\<rparr>) rs)
         | _ \<Rightarrow> [])"

definition issues_of_repo :: "world \<Rightarrow> datetime \<Rightarrow> datetime \<Rightarrow> string \<Rightarrow> issue list" where
  "issues_of_repo w start_dt end_dt repo_path =
     (case split_on CHR ''/'' repo_path of
        [owner, repo] \<Rightarrow>
          (case w_issues w owner repo of
             Raises \<Rightarrow> []
           | Returns all_items \<Rightarrow> fetch_issues owner repo start_dt end_dt all_items)
      | _ \<Rightarrow> [])"

definition meta_of_repo :: "world \<Rightarrow> string \<Rightarrow> repo_meta list" where
  "meta_of_repo w repo_path =
     (case split_on CHR ''/'' repo_path of
        [owner, repo] \<Rightarrow>
          (case w_metadata w owner repo of
             Returns (Some meta) \<Rightarrow> [meta]
           | _ \<Rightarrow> [])
      | _ \<Rightarrow> [])"

text \<open>
  \<^verbatim>\<open>process_hackathon\<close>: the exception that leaves it, or the snapshot, or \<open>None\<close> when
  there is no repository; with the state of the run after it.
\<close>

definition process_hackathon ::
  "world \<Rightarrow> hackathon \<Rightarrow> run_state \<Rightarrow> (exn + snapshot option) \<times> run_state" where
  "process_hackathon w h st =
     (case (hk_slug h, hk_name h, hk_startTime h, hk_endTime h) of
        (None, _, _, _) \<Rightarrow> (Inl KeyError, st)
      | (Some slug, None, _, _) \<Rightarrow> (Inl KeyError, st)
      | (Some slug, Some name, Absent, _) \<Rightarrow> (Inl KeyError, st)
      | (Some slug, Some name, _, Absent) \<Rightarrow> (Inl KeyError, st)
      | (Some slug, Some name, Malformed, _) \<Rightarrow> (Inl ValueError, st)
      | (Some slug, Some name, Value start_dt, Malformed) \<Rightarrow> (Inl ValueError, st)
      | (Some slug, Some name, Value start_dt, Value end_dt) \<Rightarrow>
          (case since_of (map_option sn_lastUpdated (load_existing_data st slug)) of
             Inl e \<Rightarrow> (Inl e, st)
           | Inr since \<Rightarrow>
               (let (repositories, st1) =
                      resolve_repositories w (hk_repositories h) (hk_organization h) st
                in if repositories = [] then (Inr None, st1)
                   else
                     (let all_prs = concat (map (prs_of_repo w start_dt end_dt since) repositories);
                          new_or_updated_prs = (if since \<noteq> None then all_prs else []);
                          prs_to_fetch_reviews =
                            (if since \<noteq> None then new_or_updated_prs else all_prs);
                          all_reviews = concat (map (reviews_of_pr w) prs_to_fetch_reviews);
                          all_issues = concat (map (issues_of_repo w start_dt end_dt) repositories);
                          repo_data = concat (map (meta_of_repo w) repositories);
                          stats = process_hackathon_stats all_prs all_reviews all_issues
                                    start_dt end_dt repositories
                      in (Inr (Some \<lparr>sn_lastUpdated = Value (w_now w), sn_slug = slug,
                                     sn_name = name, sn_startTime = start_dt, sn_endTime = end_dt,
                                     sn_repositories = repositories, sn_stats = stats,
                                     sn_repoData = repo_data\<rparr>), st1)))))"

section \<open>The run\<close>

definition is_hackathon_active :: "datetime \<Rightarrow> datetime field \<Rightarrow> datetime field \<Rightarrow> exn + bool" where
  "is_hackathon_active now start_time end_time =
     (case end_time of
        Absent \<Rightarrow> Inl AttributeError
      | Malformed \<Rightarrow> Inl ValueError
      | Value end_dt \<Rightarrow> Inr (now \<le> end_dt))"

text \<open>
  One round of the \<^verbatim>\<open>for hackathon in hackathons\<close> loop of \<^verbatim>\<open>main\<close>: the exception that
  leaves the round, if any, and the state after it. The \<^verbatim>\<open>try\<close> of the round encloses the
  call of \<^verbatim>\<open>process_hackathon\<close> and the write of the snapshot, and nothing else.
\<close>

definition main_step :: "world \<Rightarrow> hackathon \<Rightarrow> run_state \<Rightarrow> exn option \<times> run_state" where
  "main_step w h st =
     (let slug = get_default (hk_slug h) ''unknown''
      in case is_hackathon_active (w_now w) (hk_startTime h) (hk_endTime h) of
           Inl e \<Rightarrow> (Some e, st)
         | Inr active \<Rightarrow>
             if \<not> active \<and> has_key (files st) slug then (None, st)
             else
               (case process_hackathon w h st of
                  (Inl e, st1) \<Rightarrow> (None, st1)
                | (Inr None, st1) \<Rightarrow> (None, st1)
                | (Inr (Some data), st1) \<Rightarrow>
                    (None, st1\<lparr>files := AList.update slug (Doc data) (files st1)\<rparr>)))"

fun main_loop :: "world \<Rightarrow> hackathon list \<Rightarrow> run_state \<Rightarrow> exn option \<times> run_state" where
  "main_loop w [] st = (None, st)"
| "main_loop w (h # hs) st =
     (case main_step w h st of
        (Some e, st1) \<Rightarrow> (Some e, st1)
      | (None, st1) \<Rightarrow> main_loop w hs st1)"

definition summary_of_run :: "world \<Rightarrow> hackathon list \<Rightarrow> summary" where
  "summary_of_run w hackathons =
     \<lparr>gs_lastUpdated = w_now w,
      gs_repositories = card (set (concat (map hk_repositories hackathons))),
      gs_hackathonName = (case hackathons of [] \<Rightarrow> [] | primary # _ \<Rightarrow> get_default (hk_name primary) []),
      gs_startTime = (case hackathons of [] \<Rightarrow> Absent | primary # _ \<Rightarrow> hk_startTime primary),
      gs_endTime = (case hackathons of [] \<Rightarrow> Absent | primary # _ \<Rightarrow> hk_endTime primary),
      gs_hackathons =
        map (\<lambda>h. (get_default (hk_slug h) [], get_default (hk_name h) [],
                   hk_startTime h, hk_endTime h)) hackathons\<rparr>"

text \<open>
  \<^verbatim>\<open>main\<close>, from the list of events of the configuration document and the snapshot files
  found on disk: an empty list exits at once; an exception that leaves a round ends the
  run there; otherwise the summary is written after the last round.
\<close>

definition main :: "world \<Rightarrow> hackathon list \<Rightarrow> (string \<times> stored) list \<Rightarrow> exn option \<times> run_state" where
  "main w hackathons disk =
     (let st0 = \<lparr>files = disk, org_repos_cache = [], org_log = [], stats_json = None\<rparr>
      in if hackathons = [] then (Some SystemExit, st0)
         else case main_loop w hackathons st0 of
                (Some e, st) \<Rightarrow> (Some e, st)
              | (None, st) \<Rightarrow> (None, st\<lparr>stats_json := Some (summary_of_run w hackathons)\<rparr>))"

text \<open>A log in which nothing happens for an organization after its cache entry was written.\<close>

definition quiet_after_cached :: "org_event list \<Rightarrow> bool" where
  "quiet_after_cached log \<longleftrightarrow>
     (\<forall>i j org. i < j \<and> j < length log \<and> log ! i = Cached org \<longrightarrow>
        log ! j \<noteq> Cached org \<and> (\<forall>r. log ! j \<noteq> Fetched org r))"

text \<open>The invariant of the organization cache and its log during a run.\<close>

definition log_inv :: "run_state \<Rightarrow> bool" where
  "log_inv st \<longleftrightarrow>
     quiet_after_cached (org_log st) \<and>
     (\<forall>org. (map_of (org_repos_cache st) org = None \<longrightarrow> Cached org \<notin> set (org_log st)) \<and>
        length (filter (\<lambda>ev. ev = Cached org) (org_log st)) \<le> 1 \<and>
        length (filter (\<lambda>ev. \<exists>rs. rs \<noteq> [] \<and> ev = Fetched org (Returns rs)) (org_log st))
          = length (filter (\<lambda>ev. ev = Cached org) (org_log st)))"

subsection \<open>Example records\<close>

definition pr_example :: "nat \<Rightarrow> datetime \<Rightarrow> datetime \<Rightarrow> datetime option \<Rightarrow> pull_request" where
  "pr_example n created updated merged =
     \<lparr>pr_number = n, pr_login = ''alice'', pr_avatar_url = None, pr_user_url = None,
      pr_title = Some ''Fix typo'', pr_html_url = None, pr_created_at = created,
      pr_updated_at = updated, pr_merged_at = merged, pr_repository = None\<rparr>"

definition pr_fresh :: pull_request where
  "pr_fresh = pr_example 2 100 (3600000000 + minutes 1) None"

definition pr_stale :: pull_request where
  "pr_stale = pr_example 1 200 (3600000000 - minutes 10) None"

definition pr_at_end :: pull_request where
  "pr_at_end = pr_example 3 7200000000 7200000000 None"

definition mk_pr :: "nat \<Rightarrow> string \<Rightarrow> string \<Rightarrow> datetime \<Rightarrow> datetime option \<Rightarrow> pull_request" where
  "mk_pr n u title created merged =
     \<lparr>pr_number = n, pr_login = u, pr_avatar_url = None, pr_user_url = None,
      pr_title = Some title, pr_html_url = None, pr_created_at = created,
      pr_updated_at = created, pr_merged_at = merged,
      pr_repository = Some ''acme/widgets''\<rparr>"

definition mk_review :: "string \<Rightarrow> string \<Rightarrow> datetime option \<Rightarrow> review" where
  "mk_review u state submitted =
     \<lparr>rv_id = None, rv_login = u, rv_avatar_url = None, rv_user_url = None,
      rv_state = Some state, rv_submitted_at = submitted, rv_html_url = None,
      rv_pull_request_url = None, rv_pull_request_title = None,
      rv_repository = Some ''acme/widgets''\<rparr>"

text \<open>The window of the examples: 2024-01-01T00:00:00Z to 2024-01-03T00:00:00Z.\<close>

definition ex_start :: datetime where
  "ex_start = 1704067200000000"

definition ex_end :: datetime where
  "ex_end = 1704240000000000"

definition ex_prs :: "pull_request list" where
  "ex_prs =
     [mk_pr 1 ''alice'' ''Fix typo'' 1704070000000000 (Some 1704080000000000),
      mk_pr 2 ''dependabot[bot]'' ''Bump lib'' 1704070000000000 (Some 1704080000000000),
      mk_pr 3 ''bob'' ''Add feature'' 1704160000000000 (Some 1704170000000000),
      mk_pr 4 ''zed'' ''Docs'' 1704160000000000 (Some 1704170000000000),
      mk_pr 5 ''bob'' ''More'' 1704160000000000 (Some 1704170000000000),
      mk_pr 6 ''some-app-Bot'' ''Sync'' 1704160000000000 (Some 1704170000000000),
      mk_pr 7 ''carol'' ''Apply Copilot suggestions'' 1704160000000000 (Some 1704170000000000)]"

definition ex_reviews :: "review list" where
  "ex_reviews =
     [mk_review ''carol'' ''APPROVED'' (Some 1704100000000000),
      mk_review ''carol'' ''DISMISSED'' (Some 1704100000000000),
      mk_review ''dave'' ''APPROVED'' None,
      mk_review ''erin'' ''COMMENTED'' (Some 1704240000000001),
      mk_review ''github-copilot'' ''COMMENTED'' (Some 1704100000000000),
      mk_review ''alice'' ''APPROVED'' (Some 1704240000000000)]"

definition pr_copilot_title :: pull_request where
  "pr_copilot_title =
     mk_pr 1 ''alice'' ''Apply Copilot suggestions'' 1704070000000000 (Some 1704080000000000)"

definition ex_copilot_prs :: "pull_request list" where
  "ex_copilot_prs =
     [pr_copilot_title,
      mk_pr 2 ''alice'' ''Fix typo'' 1704070000000000 (Some 1704080000000000)]"






text \<open>A world with one organization that lists two repositories, and events over it.\<close>

definition w_quiet :: world where
  "w_quiet =
     \<lparr>w_now = 1704150000000000,
      w_set_order = remdups,
      w_org_repos = (\<lambda>org n. if org = ''acme'' then Returns [''acme/widgets'', ''acme/gadgets'']
                               else Returns []),
      w_pulls = (\<lambda>by_update owner repo. if owner = ''acme'' \<and> repo = ''widgets''
                                          then Returns ex_prs else Returns []),
      w_reviews = (\<lambda>owner repo n. Returns []),
      w_issues = (\<lambda>owner repo. Returns []),
      w_metadata = (\<lambda>owner repo. Returns None)\<rparr>"

definition hk_ok :: hackathon where
  "hk_ok =
     \<lparr>hk_slug = Some ''winter'', hk_name = Some ''Winter'', hk_startTime = Value ex_start,
      hk_endTime = Value ex_end, hk_organization = None,
      hk_repositories = [''acme/widgets'']\<rparr>"

definition hk_no_end :: hackathon where
  "hk_no_end = hk_ok\<lparr>hk_slug := Some ''broken'', hk_endTime := Absent\<rparr>"

definition hk_no_start :: hackathon where
  "hk_no_start = hk_ok\<lparr>hk_slug := Some ''broken'', hk_startTime := Absent\<rparr>"


definition hk_org :: "string \<Rightarrow> string \<Rightarrow> string list \<Rightarrow> hackathon" where
  "hk_org slug org repos =
     hk_ok\<lparr>hk_slug := Some slug, hk_organization := Some org, hk_repositories := repos\<rparr>"



definition acme_events :: "hackathon list" where
  "acme_events = [hk_org ''a'' ''acme'' [''acme/widgets''], hk_org ''b'' ''acme'' []]"

definition ghost_events :: "hackathon list" where
  "ghost_events =
     [hk_org ''a'' ''ghost'' [''acme/widgets''], hk_org ''b'' ''ghost'' [''acme/widgets'']]"


section \<open>Properties of the pull request fetch\<close>

lemma filter_prs_takeWhile:
  "filter_prs path s e since prs =
     map (\<lambda>pr. pr\<lparr>pr_repository := Some path\<rparr>)
       (filter (relevant_pr s e)
          (takeWhile (\<lambda>pr. \<forall>w. since = Some w \<longrightarrow> w \<le> pr_updated_at pr) prs))"
  by (induction prs) (auto split: option.splits)

lemma sorted_desc_takeWhile_all:
  assumes "sorted (rev (map f xs))" and "x \<in> set xs" and "(w::int) \<le> f x"
  shows "x \<in> set (takeWhile (\<lambda>y. w \<le> f y) xs)"
  using assms
proof (induction xs)
  case Nil
  then show ?case by simp
next
  case (Cons y ys)
  from Cons.prems(1) have tl: "sorted (rev (map f ys))" and hd: "\<forall>z \<in> set ys. f z \<le> f y"
    by (auto simp: sorted_append)
  show ?case
  proof (cases "x = y")
    case True
    with Cons.prems(3) show ?thesis by simp
  next
    case False
    with Cons.prems(2) have in_ys: "x \<in> set ys" by simp
    with hd Cons.prems(3) have "w \<le> f y" by fastforce
    with Cons.IH [OF tl in_ys Cons.prems(3)] show ?thesis by simp
  qed
qed

text \<open>
  C1: in incremental mode (the prior snapshot carries \<open>lastUpdated = T\<close>) the watermark is
  \<open>T\<close> minus five minutes; no pull request updated before the watermark (for instance at
  \<open>T\<close> minus ten minutes) is in the result of \<open>fetch_pull_requests\<close>; and when the listing
  is sorted by update time, descending, every pull request of the listing that was updated
  at or after the watermark (for instance at \<open>T\<close> plus one minute) and passes the relevance
  filter is in the result.
\<close>

theorem incremental_fetch_watermark:
  assumes "sorted (rev (map pr_updated_at all_prs))"
  shows "since_of (Some (Value T)) = Inr (Some (T - minutes 5)) \<and>
     (\<forall>since. since_of (Some (Value T)) = Inr since \<longrightarrow>
        (\<forall>x \<in> set (fetch_pull_requests owner repo s e since all_prs).
            T - minutes 5 \<le> pr_updated_at x) \<and>
        (\<forall>pr \<in> set all_prs. pr_updated_at pr = T - minutes 10 \<longrightarrow>
            pr\<lparr>pr_repository := Some (owner @ ''/'' @ repo)\<rparr>
              \<notin> set (fetch_pull_requests owner repo s e since all_prs)) \<and>
        (\<forall>pr \<in> set all_prs.
            T - minutes 5 \<le> pr_updated_at pr \<and>
            ((s \<le> pr_created_at pr \<and> pr_created_at pr \<le> e) \<or>
             (\<exists>m. pr_merged_at pr = Some m \<and> s \<le> m \<and> m \<le> e)) \<longrightarrow>
            pr\<lparr>pr_repository := Some (owner @ ''/'' @ repo)\<rparr>
              \<in> set (fetch_pull_requests owner repo s e since all_prs)) \<and>
        (\<forall>pr \<in> set all_prs.
            pr_updated_at pr = T + minutes 1 \<and>
            ((s \<le> pr_created_at pr \<and> pr_created_at pr \<le> e) \<or>
             (\<exists>m. pr_merged_at pr = Some m \<and> s \<le> m \<and> m \<le> e)) \<longrightarrow>
            pr\<lparr>pr_repository := Some (owner @ ''/'' @ repo)\<rparr>
              \<in> set (fetch_pull_requests owner repo s e since all_prs)))"
proof -
  let ?w = "T - minutes 5"
  let ?tag = "\<lambda>pr. pr\<lparr>pr_repository := Some (owner @ ''/'' @ repo)\<rparr>"
  let ?res = "fetch_pull_requests owner repo s e (Some ?w) all_prs"
  have since: "since_of (Some (Value T)) = Inr (Some ?w)"
    by (simp add: since_of_def)
  have res: "?res = map ?tag (filter (relevant_pr s e)
        (takeWhile (\<lambda>pr. ?w \<le> pr_updated_at pr) all_prs))"
    by (simp add: fetch_pull_requests_def filter_prs_takeWhile)
  have fresh: "\<forall>x \<in> set ?res. ?w \<le> pr_updated_at x"
    unfolding res by (auto dest: set_takeWhileD)
  have old: "\<forall>pr \<in> set all_prs. pr_updated_at pr = T - minutes 10 \<longrightarrow> ?tag pr \<notin> set ?res"
  proof (intro ballI impI notI)
    fix pr assume "pr_updated_at pr = T - minutes 10" and "?tag pr \<in> set ?res"
    with fresh have "?w \<le> pr_updated_at (?tag pr)" by blast
    with \<open>pr_updated_at pr = T - minutes 10\<close> show False by (simp add: minutes_def)
  qed
  have incl: "\<forall>pr \<in> set all_prs.
      ?w \<le> pr_updated_at pr \<and>
      ((s \<le> pr_created_at pr \<and> pr_created_at pr \<le> e) \<or>
       (\<exists>m. pr_merged_at pr = Some m \<and> s \<le> m \<and> m \<le> e)) \<longrightarrow> ?tag pr \<in> set ?res"
  proof (intro ballI impI)
    fix pr assume mem: "pr \<in> set all_prs"
      and h: "?w \<le> pr_updated_at pr \<and>
        ((s \<le> pr_created_at pr \<and> pr_created_at pr \<le> e) \<or>
         (\<exists>m. pr_merged_at pr = Some m \<and> s \<le> m \<and> m \<le> e))"
    from h have rel: "relevant_pr s e pr"
      by (auto simp: relevant_pr_def)
    from h have "pr \<in> set (takeWhile (\<lambda>pr. ?w \<le> pr_updated_at pr) all_prs)"
      using sorted_desc_takeWhile_all [OF assms mem] by blast
    with rel show "?tag pr \<in> set ?res"
      unfolding res by simp
  qed
  have incl1: "\<forall>pr \<in> set all_prs.
      pr_updated_at pr = T + minutes 1 \<and>
      ((s \<le> pr_created_at pr \<and> pr_created_at pr \<le> e) \<or>
       (\<exists>m. pr_merged_at pr = Some m \<and> s \<le> m \<and> m \<le> e)) \<longrightarrow> ?tag pr \<in> set ?res"
  proof (intro ballI impI)
    fix pr assume mem: "pr \<in> set all_prs"
      and h: "pr_updated_at pr = T + minutes 1 \<and>
        ((s \<le> pr_created_at pr \<and> pr_created_at pr \<le> e) \<or>
         (\<exists>m. pr_merged_at pr = Some m \<and> s \<le> m \<and> m \<le> e))"
    then have "?w \<le> pr_updated_at pr" by (simp add: minutes_def)
    with incl mem h show "?tag pr \<in> set ?res" by blast
  qed
  from since fresh old incl incl1 show ?thesis by simp
qed

theorem incremental_fetch_watermark_witness:
  "sorted (rev (map pr_updated_at [pr_fresh, pr_stale])) \<and>
   since_of (Some (Value 3600000000)) = Inr (Some (3600000000 - minutes 5)) \<and>
   pr_fresh \<in> set [pr_fresh, pr_stale] \<and> pr_stale \<in> set [pr_fresh, pr_stale] \<and>
   pr_updated_at pr_stale = 3600000000 - minutes 10 \<and>
   pr_stale\<lparr>pr_repository := Some (''acme'' @ ''/'' @ ''widgets'')\<rparr>
     \<notin> set (fetch_pull_requests ''acme'' ''widgets'' 0 7200000000
              (Some (3600000000 - minutes 5)) [pr_fresh, pr_stale]) \<and>
   pr_updated_at pr_fresh = 3600000000 + minutes 1 \<and>
   pr_fresh\<lparr>pr_repository := Some (''acme'' @ ''/'' @ ''widgets'')\<rparr>
     \<in> set (fetch_pull_requests ''acme'' ''widgets'' 0 7200000000
              (Some (3600000000 - minutes 5)) [pr_fresh, pr_stale])"
proof -
  have h: "sorted (rev (map pr_updated_at [pr_fresh, pr_stale]))"
    by (simp add: pr_fresh_def pr_stale_def pr_example_def minutes_def)
  have f: "pr_updated_at pr_fresh = 3600000000 + minutes 1 \<and>
      0 \<le> pr_created_at pr_fresh \<and> pr_created_at pr_fresh \<le> 7200000000"
    by (simp add: pr_fresh_def pr_example_def)
  have o: "pr_updated_at pr_stale = 3600000000 - minutes 10"
    by (simp add: pr_stale_def pr_example_def)
  from incremental_fetch_watermark [OF h, of 3600000000 "''acme''" "''widgets''" 0 7200000000]
  show ?thesis using h f o by simp
qed

text \<open>
  C5, as stated, fails on the code: the relevance test compares with \<open>\<le>\<close> at both ends,
  so a pull request created exactly at the end of the window, which is outside the
  half-open window \<open>[start, end)\<close>, is retained.
\<close>

theorem half_open_window_counterexample:
  "\<not> (pr_created_at pr_at_end < 7200000000) \<and> pr_merged_at pr_at_end = None \<and>
   fetch_pull_requests ''acme'' ''widgets'' 0 7200000000 None [pr_at_end]
     = [pr_at_end\<lparr>pr_repository := Some ''acme/widgets''\<rparr>]"
  by (simp add: pr_at_end_def pr_example_def fetch_pull_requests_def relevant_pr_def)

text \<open>
  C5, amended: \<open>fetch_pull_requests\<close> retains, tagged with the repository and in the order
  of the listing, exactly the pull requests that come before the first one updated before
  the watermark (all of them when there is no watermark) and whose creation time or, when
  merged, merge time lies in the closed window from start to end, both ends included.
\<close>

theorem fetch_pull_requests_closed_window:
  "fetch_pull_requests owner repo s e since all_prs =
     map (\<lambda>pr. pr\<lparr>pr_repository := Some (owner @ ''/'' @ repo)\<rparr>)
       (filter (\<lambda>pr. (s \<le> pr_created_at pr \<and> pr_created_at pr \<le> e) \<or>
                     (\<exists>m. pr_merged_at pr = Some m \<and> s \<le> m \<and> m \<le> e))
          (takeWhile (\<lambda>pr. \<forall>w. since = Some w \<longrightarrow> w \<le> pr_updated_at pr) all_prs))"
proof -
  have "relevant_pr s e = (\<lambda>pr. (s \<le> pr_created_at pr \<and> pr_created_at pr \<le> e) \<or>
                     (\<exists>m. pr_merged_at pr = Some m \<and> s \<le> m \<and> m \<le> e))"
    by (auto simp: relevant_pr_def fun_eq_iff split: option.splits)
  then show ?thesis
    by (simp add: fetch_pull_requests_def filter_prs_takeWhile)
qed

theorem fetch_pull_requests_closed_window_witness:
  "fetch_pull_requests ''acme'' ''widgets'' 0 7200000000 (Some (3600000000 - minutes 5))
      [pr_fresh, pr_stale, pr_at_end]
     = [pr_fresh\<lparr>pr_repository := Some ''acme/widgets''\<rparr>] \<and>
   fetch_pull_requests ''acme'' ''widgets'' 0 7200000000 None
      [pr_fresh, pr_stale, pr_at_end\<lparr>pr_created_at := 7200000001\<rparr>]
     = [pr_fresh\<lparr>pr_repository := Some ''acme/widgets''\<rparr>,
        pr_stale\<lparr>pr_repository := Some ''acme/widgets''\<rparr>]"
  using fetch_pull_requests_closed_window [of "''acme''" "''widgets''" 0 7200000000
      "Some (3600000000 - minutes 5)" "[pr_fresh, pr_stale, pr_at_end]"]
    fetch_pull_requests_closed_window [of "''acme''" "''widgets''" 0 7200000000
      None "[pr_fresh, pr_stale, pr_at_end\<lparr>pr_created_at := 7200000001\<rparr>]"]
  by (simp add: pr_fresh_def pr_stale_def pr_at_end_def pr_example_def minutes_def)

section \<open>Properties of the aggregation\<close>

subsection \<open>Daily activity\<close>



lemma map_fst_map_entry: "map fst (AList.map_entry k f al) = map fst al"
  by (induction al) auto








subsection \<open>Participants\<close>

lemma map_fst_update:
  "map fst (AList.update k v al) = (if k \<in> set (map fst al) then map fst al else map fst al @ [k])"
  by (induction al) auto

lemma map_entry_twice: "AList.map_entry k g (AList.map_entry k f al) = AList.map_entry k (g \<circ> f) al"
  by (induction al) auto

lemma keys_credit:
  "map fst (credit u np f ps) = (if u \<in> set (map fst ps) then map fst ps else map fst ps @ [u])"
  by (simp add: credit_def has_key_def map_fst_map_entry map_fst_update)

lemma map_of_credit:
  "map_of (credit u np f ps) = (map_of ps)(u \<mapsto> f (case map_of ps u of None \<Rightarrow> np | Some p \<Rightarrow> p))"
proof (cases "map_of ps u")
  case None
  then have "u \<notin> fst ` set ps" by (simp add: map_of_eq_None_iff)
  with None show ?thesis
    by (auto simp: credit_def has_key_def map_of_map_entry update_conv' fun_eq_iff)
next
  case (Some p)
  then have "u \<in> fst ` set ps" by (metis map_of_eq_None_iff option.distinct(1))
  with Some show ?thesis
    by (auto simp: credit_def has_key_def map_of_map_entry fun_eq_iff)
qed

lemma count_of_credit:
  assumes "c np = (0::nat)" and "\<And>p. c (f p) = c p + d"
  shows "count_of c (credit u np f ps) v = count_of c ps v + (if v = u then d else 0)"
  using assms by (simp add: count_of_def map_of_credit split: option.splits)

lemma reviews_of_credit:
  assumes "reviews np = []" and "\<And>p. reviews (f p) = reviews p @ d"
  shows "reviews_of (credit u np f ps) v = reviews_of ps v @ (if v = u then d else [])"
  using assms by (simp add: reviews_of_def map_of_credit split: option.splits)

lemma participants_pr_step: "participants (pr_step s e pr st) = pr_credit pr (participants st)"
  by (auto simp: pr_step_def pr_credit_def credits_pr_def is_bot_def credit_def Let_def map_entry_twice
      comp_def intro!: arg_cong2 [where f = "\<lambda>f l. AList.map_entry _ f l"])

lemma review_step_skip: "\<not> credits_review s e r \<Longrightarrow> review_step s e r st = st"
  by (auto simp: review_step_def credits_review_def is_bot_def Let_def get_default_def split: option.splits)

lemma participants_review_step: "participants (review_step s e r st) = rv_credit s e r (participants st)"
proof (cases "credits_review s e r")
  case False
  then show ?thesis by (simp add: review_step_skip rv_credit_def)
next
  case True
  then show ?thesis
    by (auto simp: review_step_def rv_credit_def credits_review_def is_bot_def credit_def Let_def
        map_entry_twice comp_def get_default_def split: option.splits)
qed

lemma participants_issue_step: "participants (issue_step i st) = participants st"
  by (simp add: issue_step_def Let_def)

lemma participants_fold_pr:
  "participants (fold (pr_step s e) prs st) = fold pr_credit prs (participants st)"
  by (induction prs arbitrary: st) (simp_all add: participants_pr_step)

lemma participants_fold_review:
  "participants (fold (review_step s e) rs st) = fold (rv_credit s e) rs (participants st)"
  by (induction rs arbitrary: st) (simp_all add: participants_review_step)

lemma participants_fold_issue: "participants (fold issue_step is st) = participants st"
  by (induction "is" arbitrary: st) (simp_all add: participants_issue_step)

lemma participants_aggregate:
  "participants (aggregate prs rs is s e repos) = fold (rv_credit s e) rs (fold pr_credit prs [])"
  by (simp add: aggregate_def participants_fold_issue participants_fold_review
      participants_fold_pr init_agg_def)

lemma keys_fold_pr_credit:
  "map fst (fold pr_credit prs ps) =
     fold (\<lambda>x acc. if x \<in> set acc then acc else acc @ [x])
       (map pr_login (filter credits_pr prs)) (map fst ps)"
  by (induction prs arbitrary: ps) (simp_all add: pr_credit_def keys_credit)

lemma keys_fold_rv_credit:
  "map fst (fold (rv_credit s e) rs ps) =
     fold (\<lambda>x acc. if x \<in> set acc then acc else acc @ [x])
       (map rv_login (filter (credits_review s e) rs)) (map fst ps)"
  by (induction rs arbitrary: ps) (simp_all add: rv_credit_def keys_credit)

lemma keys_aggregate:
  "map fst (participants (aggregate prs rs is s e repos)) =
     first_seen (map pr_login (filter credits_pr prs) @ map rv_login (filter (credits_review s e) rs))"
  by (simp add: participants_aggregate keys_fold_rv_credit keys_fold_pr_credit first_seen_def)

lemma distinct_first_seen_fold:
  "distinct acc \<Longrightarrow> distinct (fold (\<lambda>x acc. if x \<in> set acc then acc else acc @ [x]) xs acc)"
  by (induction xs arbitrary: acc) simp_all

lemma set_first_seen_fold:
  "set (fold (\<lambda>x acc. if x \<in> set acc then acc else acc @ [x]) xs acc) = set acc \<union> set xs"
  by (induction xs arbitrary: acc) auto

lemma distinct_first_seen: "distinct (first_seen xs)"
  by (simp add: first_seen_def distinct_first_seen_fold)

lemma set_first_seen: "set (first_seen xs) = set xs"
  by (simp add: first_seen_def set_first_seen_fold)

lemma set_update_cases: "x \<in> set (AList.update k v al) \<Longrightarrow> x = (k, v) \<or> x \<in> set al"
  by (induction al) (auto split: if_splits)

lemma set_map_entry_cases:
  "x \<in> set (AList.map_entry k f al) \<Longrightarrow> x \<in> set al \<or> (\<exists>v. (k, v) \<in> set al \<and> x = (k, f v))"
  by (induction al) (auto split: if_splits)

lemma named_credit:
  assumes "named ps" and "username np = u" and "\<And>p. username (f p) = username p"
  shows "named (credit u np f ps)"
proof -
  let ?ps1 = "if \<not> has_key ps u then AList.update u np ps else ps"
  have n1: "named ?ps1"
    using assms(1,2) by (auto simp: named_def dest!: set_update_cases)
  show ?thesis
    unfolding credit_def named_def
  proof
    fix x assume "x \<in> set (AList.map_entry u f ?ps1)"
    then consider "x \<in> set ?ps1" | v where "(u, v) \<in> set ?ps1" "x = (u, f v)"
      using set_map_entry_cases by fastforce
    then show "username (snd x) = fst x"
    proof cases
      case 1
      with n1 show ?thesis by (simp add: named_def)
    next
      case 2
      with n1 have "username v = u" by (force simp: named_def)
      with 2 assms(3) show ?thesis by simp
    qed
  qed
qed

lemma named_pr_credit: "named ps \<Longrightarrow> named (pr_credit pr ps)"
  unfolding pr_credit_def by (auto intro!: named_credit simp: new_participant_def)

lemma named_rv_credit: "named ps \<Longrightarrow> named (rv_credit s e r ps)"
  unfolding rv_credit_def by (auto intro!: named_credit simp: new_participant_def)

lemma named_fold_pr: "named ps \<Longrightarrow> named (fold pr_credit prs ps)"
  by (induction prs arbitrary: ps) (simp_all add: named_pr_credit)

lemma named_fold_rv: "named ps \<Longrightarrow> named (fold (rv_credit s e) rs ps)"
  by (induction rs arbitrary: ps) (simp_all add: named_rv_credit)

lemma named_aggregate: "named (participants (aggregate prs rs is s e repos))"
proof -
  have "named []" by (simp add: named_def)
  then show ?thesis
    by (simp only: participants_aggregate named_fold_rv named_fold_pr)
qed

lemma merged_pr_credit:
  "count_of mergedCount (pr_credit pr ps) v =
     count_of mergedCount ps v +
       (if credits_pr pr \<and> pr_login pr = v \<and> pr_merged_at pr \<noteq> None then 1 else 0)"
proof (cases "credits_pr pr")
  case False
  then show ?thesis by (simp add: pr_credit_def)
next
  case True
  then show ?thesis
    by (simp add: pr_credit_def
        count_of_credit [where d = "if pr_merged_at pr \<noteq> None then 1 else 0"]
        new_participant_def)
qed

lemma merged_rv_credit: "count_of mergedCount (rv_credit s e r ps) v = count_of mergedCount ps v"
  by (simp add: rv_credit_def count_of_credit [where d = 0] new_participant_def)

lemma prcount_pr_credit:
  "count_of prCount (pr_credit pr ps) v =
     count_of prCount ps v + (if credits_pr pr \<and> pr_login pr = v then 1 else 0)"
  by (simp add: pr_credit_def count_of_credit [where d = 1] new_participant_def)

lemma prcount_rv_credit: "count_of prCount (rv_credit s e r ps) v = count_of prCount ps v"
  by (simp add: rv_credit_def count_of_credit [where d = 0] new_participant_def)

lemma review_pr_credit: "count_of reviewCount (pr_credit pr ps) v = count_of reviewCount ps v"
  by (simp add: pr_credit_def count_of_credit [where d = 0] new_participant_def)

lemma review_rv_credit:
  "count_of reviewCount (rv_credit s e r ps) v =
     count_of reviewCount ps v + (if credits_review s e r \<and> rv_login r = v then 1 else 0)"
  by (simp add: rv_credit_def count_of_credit [where d = 1] new_participant_def)

lemma reviews_pr_credit: "reviews_of (pr_credit pr ps) v = reviews_of ps v"
  by (simp add: pr_credit_def reviews_of_credit [where d = "[]"] new_participant_def)

lemma reviews_rv_credit:
  "reviews_of (rv_credit s e r ps) v =
     reviews_of ps v @ (if credits_review s e r \<and> rv_login r = v then [summary_of r] else [])"
  by (simp add: rv_credit_def reviews_of_credit [where d = "[summary_of r]"] new_participant_def)

lemma merged_fold_pr:
  "count_of mergedCount (fold pr_credit prs ps) v =
     count_of mergedCount ps v +
       length (filter (\<lambda>pr. credits_pr pr \<and> pr_login pr = v \<and> pr_merged_at pr \<noteq> None) prs)"
  by (induction prs arbitrary: ps) (simp_all add: merged_pr_credit)

lemma merged_fold_rv: "count_of mergedCount (fold (rv_credit s e) rs ps) v = count_of mergedCount ps v"
  by (induction rs arbitrary: ps) (simp_all add: merged_rv_credit)

lemma prcount_fold_pr:
  "count_of prCount (fold pr_credit prs ps) v =
     count_of prCount ps v + length (filter (\<lambda>pr. credits_pr pr \<and> pr_login pr = v) prs)"
  by (induction prs arbitrary: ps) (simp_all add: prcount_pr_credit)

lemma prcount_fold_rv: "count_of prCount (fold (rv_credit s e) rs ps) v = count_of prCount ps v"
  by (induction rs arbitrary: ps) (simp_all add: prcount_rv_credit)

lemma review_fold_pr: "count_of reviewCount (fold pr_credit prs ps) v = count_of reviewCount ps v"
  by (induction prs arbitrary: ps) (simp_all add: review_pr_credit)

lemma review_fold_rv:
  "count_of reviewCount (fold (rv_credit s e) rs ps) v =
     count_of reviewCount ps v +
       length (filter (\<lambda>r. credits_review s e r \<and> rv_login r = v) rs)"
  by (induction rs arbitrary: ps) (simp_all add: review_rv_credit)

lemma reviews_fold_pr: "reviews_of (fold pr_credit prs ps) v = reviews_of ps v"
  by (induction prs arbitrary: ps) (simp_all add: reviews_pr_credit)

lemma reviews_fold_rv:
  "reviews_of (fold (rv_credit s e) rs ps) v =
     reviews_of ps v @ map summary_of (filter (\<lambda>r. credits_review s e r \<and> rv_login r = v) rs)"
  by (induction rs arbitrary: ps) (simp_all add: reviews_rv_credit)

lemma counts_aggregate:
  "count_of mergedCount (participants (aggregate prs rs is s e repos)) v =
     length (filter (\<lambda>pr. credits_pr pr \<and> pr_login pr = v \<and> pr_merged_at pr \<noteq> None) prs)"
  "count_of prCount (participants (aggregate prs rs is s e repos)) v =
     length (filter (\<lambda>pr. credits_pr pr \<and> pr_login pr = v) prs)"
  "count_of reviewCount (participants (aggregate prs rs is s e repos)) v =
     length (filter (\<lambda>r. credits_review s e r \<and> rv_login r = v) rs)"
  "reviews_of (participants (aggregate prs rs is s e repos)) v =
     map summary_of (filter (\<lambda>r. credits_review s e r \<and> rv_login r = v) rs)"
proof -
  have z: "\<And>c. count_of c [] v = (0::nat)" "reviews_of [] v = []"
    by (simp_all add: count_of_def reviews_of_def)
  show "count_of mergedCount (participants (aggregate prs rs is s e repos)) v =
     length (filter (\<lambda>pr. credits_pr pr \<and> pr_login pr = v \<and> pr_merged_at pr \<noteq> None) prs)"
    by (simp add: participants_aggregate merged_fold_rv merged_fold_pr z)
  show "count_of prCount (participants (aggregate prs rs is s e repos)) v =
     length (filter (\<lambda>pr. credits_pr pr \<and> pr_login pr = v) prs)"
    by (simp add: participants_aggregate prcount_fold_rv prcount_fold_pr z)
  show "count_of reviewCount (participants (aggregate prs rs is s e repos)) v =
     length (filter (\<lambda>r. credits_review s e r \<and> rv_login r = v) rs)"
    by (simp add: participants_aggregate review_fold_rv review_fold_pr z)
  show "reviews_of (participants (aggregate prs rs is s e repos)) v =
     map summary_of (filter (\<lambda>r. credits_review s e r \<and> rv_login r = v) rs)"
    by (simp add: participants_aggregate reviews_fold_rv reviews_fold_pr z)
qed

lemma entry_lookup:
  assumes "p \<in> set (map snd (participants (aggregate prs rs is s e repos)))"
  shows "map_of (participants (aggregate prs rs is s e repos)) (username p) = Some p"
proof -
  let ?ps = "participants (aggregate prs rs is s e repos)"
  from assms obtain k where kp: "(k, p) \<in> set ?ps" by auto
  with named_aggregate [of prs rs "is" s e repos] have "username p = k"
    by (force simp: named_def)
  moreover have "distinct (map fst ?ps)" by (simp add: keys_aggregate distinct_first_seen)
  ultimately show ?thesis using kp by simp
qed

lemma mset_sorted_reverse: "mset (sorted_reverse f xs) = mset xs"
  by (simp add: sorted_reverse_def)

lemma set_sorted_reverse: "set (sorted_reverse f xs) = set xs"
  by (simp add: sorted_reverse_def)

lemma sorted_reverse_desc: "sorted_wrt (\<lambda>a b. f b \<le> f a) (sorted_reverse f xs)"
proof -
  have "sorted (map f (sort_key f (rev xs)))" by simp
  then have "sorted_wrt (\<lambda>a b. f a \<le> f b) (sort_key f (rev xs))"
    by (simp add: sorted_map)
  then show ?thesis
    by (simp add: sorted_reverse_def sorted_wrt_rev)
qed

lemma sorted_reverse_stable:
  "filter (\<lambda>y. f y = k) (sorted_reverse f xs) = filter (\<lambda>y. f y = k) xs"
  by (simp add: sorted_reverse_def rev_filter [symmetric] sort_key_stable)

subsection \<open>Lemmas on the final statistics\<close>

lemma fold_review_step_filter:
  assumes "\<And>r. credits_review s e r \<Longrightarrow> P r"
  shows "fold (review_step s e) rs st = fold (review_step s e) (filter P rs) st"
proof (induction rs arbitrary: st)
  case Nil
  then show ?case by simp
next
  case (Cons r rs)
  show ?case
  proof (cases "P r")
    case True
    with Cons show ?thesis by simp
  next
    case False
    with assms have "\<not> credits_review s e r" by blast
    with False Cons show ?thesis by (simp add: review_step_skip)
  qed
qed

lemma fold_pr_credit_filter:
  assumes "\<And>pr. credits_pr pr \<Longrightarrow> P pr"
  shows "fold pr_credit prs ps = fold pr_credit (filter P prs) ps"
proof (induction prs arbitrary: ps)
  case Nil
  then show ?case by simp
next
  case (Cons pr prs)
  show ?case
  proof (cases "P pr")
    case True
    with Cons show ?thesis by simp
  next
    case False
    with assms have "\<not> credits_pr pr" by blast
    with False Cons show ?thesis by (simp add: pr_credit_def)
  qed
qed

lemma participant_login:
  assumes "p \<in> set (map snd (participants (aggregate prs rs is s e repos)))"
  shows "\<not> sublist ''[bot]'' (username p) \<and> \<not> suffix ''bot'' (lower (username p)) \<and>
         \<not> sublist ''copilot'' (lower (username p))"
proof -
  let ?ps = "participants (aggregate prs rs is s e repos)"
  from assms obtain k where kp: "(k, p) \<in> set ?ps" by auto
  with named_aggregate [of prs rs "is" s e repos] have "username p = k"
    by (force simp: named_def)
  with kp have "username p \<in> set (map fst ?ps)" by force
  then have "username p \<in> pr_login ` {pr \<in> set prs. credits_pr pr} \<union>
      rv_login ` {r \<in> set rs. credits_review s e r}"
    by (simp add: keys_aggregate set_first_seen)
  then show ?thesis
    by (auto simp: credits_pr_def credits_review_def)
qed

lemma participant_counts:
  assumes "p \<in> set (map snd (participants (aggregate prs rs is s e repos)))"
  shows "mergedCount p =
           length (filter (\<lambda>pr. credits_pr pr \<and> pr_login pr = username p \<and> pr_merged_at pr \<noteq> None) prs)"
    and "prCount p = length (filter (\<lambda>pr. credits_pr pr \<and> pr_login pr = username p) prs)"
    and "reviewCount p =
           length (filter (\<lambda>r. credits_review s e r \<and> rv_login r = username p) rs)"
    and "reviews p =
           map summary_of (filter (\<lambda>r. credits_review s e r \<and> rv_login r = username p) rs)"
  using counts_aggregate [of prs rs "is" s e repos "username p"] entry_lookup [OF assms]
  by (simp_all add: count_of_def reviews_of_def)

lemma leaderboard_subset:
  "set (leaderboard (process_hackathon_stats prs rs is s e repos))
     \<subseteq> set (map snd (participants (aggregate prs rs is s e repos)))"
  "set (reviewLeaderboard (process_hackathon_stats prs rs is s e repos))
     \<subseteq> set (map snd (participants (aggregate prs rs is s e repos)))"
  by (auto simp: process_hackathon_stats_def Let_def set_sorted_reverse)

lemma total_prs_fold:
  "total_prs (fold (pr_step s e) prs st) = total_prs st + length prs"
  "merged_prs (fold (pr_step s e) prs st) =
     merged_prs st + length (filter (\<lambda>pr. pr_merged_at pr \<noteq> None) prs)"
  by (induction prs arbitrary: st) (simp_all add: pr_step_def Let_def)

lemma totals_review_step:
  "total_prs (review_step s e r st) = total_prs st"
  "merged_prs (review_step s e r st) = merged_prs st"
  by (simp_all add: review_step_def Let_def split: option.splits)

lemma totals_fold_review:
  "total_prs (fold (review_step s e) rs st) = total_prs st"
  "merged_prs (fold (review_step s e) rs st) = merged_prs st"
  by (induction rs arbitrary: st) (simp_all add: totals_review_step)

lemma totals_fold_issue:
  "total_prs (fold issue_step is st) = total_prs st"
  "merged_prs (fold issue_step is st) = merged_prs st"
  by (induction "is" arbitrary: st) (simp_all add: issue_step_def Let_def)

lemma totals_aggregate:
  "total_prs (aggregate prs rs is s e repos) = length prs"
  "merged_prs (aggregate prs rs is s e repos) = length (filter (\<lambda>pr. pr_merged_at pr \<noteq> None) prs)"
  by (simp_all add: aggregate_def totals_fold_issue totals_fold_review total_prs_fold init_agg_def)

section \<open>Properties of the statistics\<close>



text \<open>
  C3, as stated, fails on the code: the Copilot test on the title is made for each pull
  request, not for the author. An author with one merged pull request whose title contains
  "Copilot" and one merged pull request whose title does not is in the merged leaderboard.
\<close>

theorem copilot_title_author_counterexample:
  "pr_login pr_copilot_title = ''alice'' \<and>
   sublist ''copilot'' (lower (get_default (pr_title pr_copilot_title) [])) \<and>
   pr_copilot_title \<in> set ex_copilot_prs \<and>
   map username
     (leaderboard (process_hackathon_stats ex_copilot_prs [] [] ex_start ex_end [''acme/widgets'']))
     = [''alice'']"
  by code_simp

text \<open>
  C3, amended: no entry of either leaderboard has a login that contains \<open>[bot]\<close>, ends
  with \<open>bot\<close> case-insensitively or contains \<open>copilot\<close> case-insensitively; a pull
  request whose title contains \<open>copilot\<close> case-insensitively does not credit its author:
  the merged count of a leaderboard entry is the number of merged pull requests of that
  login whose title does not contain it; every pull request, those of bots too, is counted
  in \<open>totalPRs\<close> and, when merged, in \<open>mergedPRs\<close>; the reviews of bot or Copilot
  logins and the reviews in state \<open>DISMISSED\<close> change nothing in the statistics; and the
  pull requests whose title contains \<open>copilot\<close> change nothing in the participants.
\<close>

theorem bot_and_copilot_exclusion:
  "(\<forall>p \<in> set (leaderboard (process_hackathon_stats prs rs is s e repos))
          \<union> set (reviewLeaderboard (process_hackathon_stats prs rs is s e repos)).
      \<not> sublist ''[bot]'' (username p) \<and> \<not> suffix ''bot'' (lower (username p)) \<and>
      \<not> sublist ''copilot'' (lower (username p))) \<and>
   (\<forall>p \<in> set (leaderboard (process_hackathon_stats prs rs is s e repos)).
      mergedCount p =
        length (filter (\<lambda>pr. pr_login pr = username p \<and> pr_merged_at pr \<noteq> None \<and>
                             \<not> sublist ''copilot'' (lower (get_default (pr_title pr) []))) prs)) \<and>
   totalPRs (process_hackathon_stats prs rs is s e repos) = length prs \<and>
   mergedPRs (process_hackathon_stats prs rs is s e repos)
     = length (filter (\<lambda>pr. pr_merged_at pr \<noteq> None) prs) \<and>
   process_hackathon_stats prs rs is s e repos
     = process_hackathon_stats prs
         (filter (\<lambda>r. \<not> sublist ''[bot]'' (rv_login r) \<and> \<not> suffix ''bot'' (lower (rv_login r)) \<and>
                       \<not> sublist ''copilot'' (lower (rv_login r)) \<and>
                       rv_state r \<noteq> Some ''DISMISSED'') rs) is s e repos \<and>
   participants (aggregate prs rs is s e repos)
     = participants
         (aggregate
            (filter (\<lambda>pr. \<not> sublist ''copilot'' (lower (get_default (pr_title pr) []))) prs)
            rs is s e repos)"
proof -
  let ?st = "process_hackathon_stats prs rs is s e repos"
  let ?ps = "map snd (participants (aggregate prs rs is s e repos))"
  have a: "\<forall>p \<in> set (leaderboard ?st) \<union> set (reviewLeaderboard ?st).
      \<not> sublist ''[bot]'' (username p) \<and> \<not> suffix ''bot'' (lower (username p)) \<and>
      \<not> sublist ''copilot'' (lower (username p))"
    using leaderboard_subset [of prs rs "is" s e repos] participant_login [of _ prs rs "is" s e repos]
    by blast
  have b: "\<forall>p \<in> set (leaderboard ?st). mergedCount p =
        length (filter (\<lambda>pr. pr_login pr = username p \<and> pr_merged_at pr \<noteq> None \<and>
                             \<not> sublist ''copilot'' (lower (get_default (pr_title pr) []))) prs)"
  proof
    fix p assume "p \<in> set (leaderboard ?st)"
    with leaderboard_subset(1) have mem: "p \<in> set ?ps" by blast
    from participant_login [OF mem]
    have "(\<lambda>pr. credits_pr pr \<and> pr_login pr = username p \<and> pr_merged_at pr \<noteq> None) =
        (\<lambda>pr. pr_login pr = username p \<and> pr_merged_at pr \<noteq> None \<and>
              \<not> sublist ''copilot'' (lower (get_default (pr_title pr) [])))"
      by (auto simp: credits_pr_def fun_eq_iff)
    with participant_counts(1) [OF mem]
    show "mergedCount p =
        length (filter (\<lambda>pr. pr_login pr = username p \<and> pr_merged_at pr \<noteq> None \<and>
                             \<not> sublist ''copilot'' (lower (get_default (pr_title pr) []))) prs)"
      by simp
  qed
  have c: "totalPRs ?st = length prs \<and>
      mergedPRs ?st = length (filter (\<lambda>pr. pr_merged_at pr \<noteq> None) prs)"
    by (simp add: process_hackathon_stats_def Let_def totals_aggregate)
  have "aggregate prs rs is s e repos = aggregate prs
         (filter (\<lambda>r. \<not> sublist ''[bot]'' (rv_login r) \<and> \<not> suffix ''bot'' (lower (rv_login r)) \<and>
                       \<not> sublist ''copilot'' (lower (rv_login r)) \<and>
                       rv_state r \<noteq> Some ''DISMISSED'') rs) is s e repos"
    unfolding aggregate_def
    by (subst fold_review_step_filter [where P = "\<lambda>r. \<not> sublist ''[bot]'' (rv_login r) \<and>
          \<not> suffix ''bot'' (lower (rv_login r)) \<and> \<not> sublist ''copilot'' (lower (rv_login r)) \<and>
          rv_state r \<noteq> Some ''DISMISSED''"]) (simp_all add: credits_review_def)
  then have d: "?st = process_hackathon_stats prs
         (filter (\<lambda>r. \<not> sublist ''[bot]'' (rv_login r) \<and> \<not> suffix ''bot'' (lower (rv_login r)) \<and>
                       \<not> sublist ''copilot'' (lower (rv_login r)) \<and>
                       rv_state r \<noteq> Some ''DISMISSED'') rs) is s e repos"
    by (simp add: process_hackathon_stats_def)
  have "fold pr_credit prs []
      = fold pr_credit
          (filter (\<lambda>pr. \<not> sublist ''copilot'' (lower (get_default (pr_title pr) []))) prs) []"
    by (rule fold_pr_credit_filter) (simp add: credits_pr_def)
  then have e: "participants (aggregate prs rs is s e repos)
     = participants
         (aggregate
            (filter (\<lambda>pr. \<not> sublist ''copilot'' (lower (get_default (pr_title pr) []))) prs)
            rs is s e repos)"
    by (simp add: participants_aggregate)
  from a b c d e show ?thesis by blast
qed

theorem bot_and_copilot_exclusion_witness:
  "totalPRs (process_hackathon_stats ex_prs ex_reviews [] ex_start ex_end [''acme/widgets'']) = 7 \<and> mergedPRs (process_hackathon_stats ex_prs ex_reviews [] ex_start ex_end [''acme/widgets'']) = 7 \<and>
   map (\<lambda>p. (username p, mergedCount p)) (leaderboard (process_hackathon_stats ex_prs ex_reviews [] ex_start ex_end [''acme/widgets'']))
     = [(''bob'', 2), (''alice'', 1), (''zed'', 1)] \<and>
   leaderboard (process_hackathon_stats ex_prs ex_reviews [] ex_start ex_end [''acme/widgets'']) ! 0 \<in> set (leaderboard (process_hackathon_stats ex_prs ex_reviews [] ex_start ex_end [''acme/widgets''])) \<and>
   \<not> sublist ''[bot]'' (username (leaderboard (process_hackathon_stats ex_prs ex_reviews [] ex_start ex_end [''acme/widgets'']) ! 0)) \<and>
   \<not> suffix ''bot'' (lower (username (leaderboard (process_hackathon_stats ex_prs ex_reviews [] ex_start ex_end [''acme/widgets'']) ! 0))) \<and>
   \<not> sublist ''copilot'' (lower (username (leaderboard (process_hackathon_stats ex_prs ex_reviews [] ex_start ex_end [''acme/widgets'']) ! 0)))"
proof -
  have a: "length ex_prs = 7 \<and> length (filter (\<lambda>pr. pr_merged_at pr \<noteq> None) ex_prs) = 7"
    by code_simp
  have b: "map (\<lambda>p. (username p, mergedCount p)) (leaderboard (process_hackathon_stats ex_prs ex_reviews [] ex_start ex_end [''acme/widgets'']))
     = [(''bob'', 2), (''alice'', 1), (''zed'', 1)]"
    by code_simp
  have "0 < length (leaderboard (process_hackathon_stats ex_prs ex_reviews [] ex_start ex_end [''acme/widgets'']))"
    by code_simp
  then have m: "leaderboard (process_hackathon_stats ex_prs ex_reviews [] ex_start ex_end [''acme/widgets'']) ! 0 \<in> set (leaderboard (process_hackathon_stats ex_prs ex_reviews [] ex_start ex_end [''acme/widgets'']))"
    by (rule nth_mem)
  note t = bot_and_copilot_exclusion [of ex_prs ex_reviews "[]" ex_start ex_end
      "[''acme/widgets'']"]
  from t have "\<forall>p \<in> set (leaderboard (process_hackathon_stats ex_prs ex_reviews [] ex_start ex_end [''acme/widgets''])) \<union> set (reviewLeaderboard (process_hackathon_stats ex_prs ex_reviews [] ex_start ex_end [''acme/widgets''])).
      \<not> sublist ''[bot]'' (username p) \<and> \<not> suffix ''bot'' (lower (username p)) \<and>
      \<not> sublist ''copilot'' (lower (username p))"
    by (rule conjunct1)
  with m have t1: "\<not> sublist ''[bot]'' (username (leaderboard (process_hackathon_stats ex_prs ex_reviews [] ex_start ex_end [''acme/widgets'']) ! 0)) \<and>
      \<not> suffix ''bot'' (lower (username (leaderboard (process_hackathon_stats ex_prs ex_reviews [] ex_start ex_end [''acme/widgets'']) ! 0))) \<and>
      \<not> sublist ''copilot'' (lower (username (leaderboard (process_hackathon_stats ex_prs ex_reviews [] ex_start ex_end [''acme/widgets'']) ! 0)))"
    by blast
  from t have "totalPRs (process_hackathon_stats ex_prs ex_reviews [] ex_start ex_end [''acme/widgets'']) = length ex_prs \<and>
      mergedPRs (process_hackathon_stats ex_prs ex_reviews [] ex_start ex_end [''acme/widgets'']) = length (filter (\<lambda>pr. pr_merged_at pr \<noteq> None) ex_prs)"
    by blast
  with a have "totalPRs (process_hackathon_stats ex_prs ex_reviews [] ex_start ex_end [''acme/widgets'']) = 7 \<and> mergedPRs (process_hackathon_stats ex_prs ex_reviews [] ex_start ex_end [''acme/widgets'']) = 7"
    by simp
  with t1 b m show ?thesis by blast
qed

text \<open>
  C4: each leaderboard holds exactly the participants with a positive count in its
  dimension (as multisets); in both, an earlier entry never has a smaller count than a later
  one; entries with equal counts stand in the order of the participants dictionary; and
  that order is the order in which the logins were first credited, by the pull requests
  first and by the reviews after them.
\<close>

theorem leaderboards_sorted_positive:
  "mset (leaderboard (process_hackathon_stats prs rs is s e repos))
     = mset (filter (\<lambda>p. 0 < mergedCount p) (map snd (participants (aggregate prs rs is s e repos)))) \<and>
   mset (reviewLeaderboard (process_hackathon_stats prs rs is s e repos))
     = mset (filter (\<lambda>p. 0 < reviewCount p) (map snd (participants (aggregate prs rs is s e repos)))) \<and>
   (\<forall>i j. i < j \<and> j < length (leaderboard (process_hackathon_stats prs rs is s e repos)) \<longrightarrow>
      mergedCount (leaderboard (process_hackathon_stats prs rs is s e repos) ! j)
        \<le> mergedCount (leaderboard (process_hackathon_stats prs rs is s e repos) ! i)) \<and>
   (\<forall>i j. i < j \<and> j < length (reviewLeaderboard (process_hackathon_stats prs rs is s e repos)) \<longrightarrow>
      reviewCount (reviewLeaderboard (process_hackathon_stats prs rs is s e repos) ! j)
        \<le> reviewCount (reviewLeaderboard (process_hackathon_stats prs rs is s e repos) ! i)) \<and>
   (\<forall>k. filter (\<lambda>p. mergedCount p = k) (leaderboard (process_hackathon_stats prs rs is s e repos))
        = filter (\<lambda>p. mergedCount p = k)
            (filter (\<lambda>p. 0 < mergedCount p) (map snd (participants (aggregate prs rs is s e repos))))) \<and>
   (\<forall>k. filter (\<lambda>p. reviewCount p = k) (reviewLeaderboard (process_hackathon_stats prs rs is s e repos))
        = filter (\<lambda>p. reviewCount p = k)
            (filter (\<lambda>p. 0 < reviewCount p) (map snd (participants (aggregate prs rs is s e repos))))) \<and>
   map username (map snd (participants (aggregate prs rs is s e repos)))
     = first_seen (map pr_login (filter credits_pr prs) @
                   map rv_login (filter (credits_review s e) rs))"
proof -
  let ?ps = "map snd (participants (aggregate prs rs is s e repos))"
  let ?st = "process_hackathon_stats prs rs is s e repos"
  have lb: "leaderboard ?st = sorted_reverse mergedCount (filter (\<lambda>p. 0 < mergedCount p) ?ps)"
    and rlb: "reviewLeaderboard ?st = sorted_reverse reviewCount (filter (\<lambda>p. 0 < reviewCount p) ?ps)"
    by (simp_all add: process_hackathon_stats_def Let_def)
  have s1: "\<forall>i j. i < j \<and> j < length (leaderboard ?st) \<longrightarrow>
      mergedCount (leaderboard ?st ! j) \<le> mergedCount (leaderboard ?st ! i)"
    using sorted_reverse_desc [of mergedCount "filter (\<lambda>p. 0 < mergedCount p) ?ps"]
    unfolding lb by (simp add: sorted_wrt_iff_nth_less)
  have s2: "\<forall>i j. i < j \<and> j < length (reviewLeaderboard ?st) \<longrightarrow>
      reviewCount (reviewLeaderboard ?st ! j) \<le> reviewCount (reviewLeaderboard ?st ! i)"
    using sorted_reverse_desc [of reviewCount "filter (\<lambda>p. 0 < reviewCount p) ?ps"]
    unfolding rlb by (simp add: sorted_wrt_iff_nth_less)
  have n: "map username ?ps = first_seen (map pr_login (filter credits_pr prs) @
                   map rv_login (filter (credits_review s e) rs))"
  proof -
    have "map username ?ps = map fst (participants (aggregate prs rs is s e repos))"
      using named_aggregate [of prs rs "is" s e repos] by (simp add: named_def)
    then show ?thesis by (simp only: keys_aggregate)
  qed
  show ?thesis
    using s1 s2 n
    by (simp add: lb rlb mset_sorted_reverse sorted_reverse_stable del: mset_filter)
qed

theorem leaderboards_sorted_positive_witness:
  "map (\<lambda>p. (username p, mergedCount p)) (leaderboard (process_hackathon_stats ex_prs ex_reviews [] ex_start ex_end [''acme/widgets'']))
     = [(''bob'', 2), (''alice'', 1), (''zed'', 1)] \<and>
   map username (map snd (participants (aggregate ex_prs ex_reviews [] ex_start ex_end
      [''acme/widgets''])))
     = [''alice'', ''bob'', ''zed'', ''carol''] \<and>
   mergedCount (leaderboard (process_hackathon_stats ex_prs ex_reviews [] ex_start ex_end [''acme/widgets'']) ! 2) \<le> mergedCount (leaderboard (process_hackathon_stats ex_prs ex_reviews [] ex_start ex_end [''acme/widgets'']) ! 0)"
proof -
  have a: "map (\<lambda>p. (username p, mergedCount p)) (leaderboard (process_hackathon_stats ex_prs ex_reviews [] ex_start ex_end [''acme/widgets'']))
     = [(''bob'', 2), (''alice'', 1), (''zed'', 1)]"
    by code_simp
  have b: "first_seen (map pr_login (filter credits_pr ex_prs) @
                   map rv_login (filter (credits_review ex_start ex_end) ex_reviews))
     = [''alice'', ''bob'', ''zed'', ''carol'']"
    by code_simp
  have c: "(0::nat) < 2 \<and> 2 < length (leaderboard (process_hackathon_stats ex_prs ex_reviews [] ex_start ex_end [''acme/widgets'']))"
    by code_simp
  note t = leaderboards_sorted_positive [of ex_prs ex_reviews "[]" ex_start ex_end
      "[''acme/widgets'']"]
  from t c have "mergedCount (leaderboard (process_hackathon_stats ex_prs ex_reviews [] ex_start ex_end [''acme/widgets'']) ! 2) \<le> mergedCount (leaderboard (process_hackathon_stats ex_prs ex_reviews [] ex_start ex_end [''acme/widgets'']) ! 0)"
    by blast
  moreover from t b
  have "map username (map snd (participants (aggregate ex_prs ex_reviews [] ex_start ex_end
      [''acme/widgets''])))
     = [''alice'', ''bob'', ''zed'', ''carol'']"
    by simp
  ultimately show ?thesis using a by blast
qed

text \<open>
  C10: a review without a submission time, or submitted outside the closed window from
  start to end, is ignored entirely: the statistics are those of the record set without
  these reviews; and for every participant the review count is the number of reviews of
  that login that are not dismissed and were submitted inside the window, and the review
  list holds the summaries of exactly these reviews, in order.
\<close>

theorem review_window_filter:
  "process_hackathon_stats prs rs is s e repos
     = process_hackathon_stats prs
         (filter (\<lambda>r. \<exists>t. rv_submitted_at r = Some t \<and> s \<le> t \<and> t \<le> e) rs) is s e repos \<and>
   (\<forall>p \<in> set (map snd (participants (aggregate prs rs is s e repos))).
      reviewCount p =
        length (filter (\<lambda>r. rv_login r = username p \<and> rv_state r \<noteq> Some ''DISMISSED'' \<and>
                            (\<exists>t. rv_submitted_at r = Some t \<and> s \<le> t \<and> t \<le> e)) rs) \<and>
      reviews p =
        map summary_of
          (filter (\<lambda>r. rv_login r = username p \<and> rv_state r \<noteq> Some ''DISMISSED'' \<and>
                       (\<exists>t. rv_submitted_at r = Some t \<and> s \<le> t \<and> t \<le> e)) rs))"
proof -
  let ?W = "\<lambda>r. \<exists>t. rv_submitted_at r = Some t \<and> s \<le> t \<and> t \<le> e"
  have "aggregate prs rs is s e repos = aggregate prs (filter ?W rs) is s e repos"
    unfolding aggregate_def
    by (subst fold_review_step_filter [where P = ?W])
      (auto simp: credits_review_def split: option.splits)
  then have a: "process_hackathon_stats prs rs is s e repos
     = process_hackathon_stats prs (filter ?W rs) is s e repos"
    by (simp add: process_hackathon_stats_def)
  have b: "\<forall>p \<in> set (map snd (participants (aggregate prs rs is s e repos))).
      reviewCount p =
        length (filter (\<lambda>r. rv_login r = username p \<and> rv_state r \<noteq> Some ''DISMISSED'' \<and> ?W r) rs) \<and>
      reviews p =
        map summary_of
          (filter (\<lambda>r. rv_login r = username p \<and> rv_state r \<noteq> Some ''DISMISSED'' \<and> ?W r) rs)"
  proof
    fix p assume mem: "p \<in> set (map snd (participants (aggregate prs rs is s e repos)))"
    from participant_login [OF mem]
    have "(\<lambda>r. credits_review s e r \<and> rv_login r = username p) =
        (\<lambda>r. rv_login r = username p \<and> rv_state r \<noteq> Some ''DISMISSED'' \<and> ?W r)"
      by (auto simp: credits_review_def fun_eq_iff split: option.splits)
    with participant_counts(3,4) [OF mem]
    show "reviewCount p =
        length (filter (\<lambda>r. rv_login r = username p \<and> rv_state r \<noteq> Some ''DISMISSED'' \<and> ?W r) rs) \<and>
      reviews p =
        map summary_of
          (filter (\<lambda>r. rv_login r = username p \<and> rv_state r \<noteq> Some ''DISMISSED'' \<and> ?W r) rs)"
      by simp
  qed
  from a b show ?thesis by blast
qed

theorem review_window_filter_witness:
  "process_hackathon_stats ex_prs ex_reviews [] ex_start ex_end [''acme/widgets'']
     = process_hackathon_stats ex_prs
         (filter (\<lambda>r. \<exists>t. rv_submitted_at r = Some t \<and> ex_start \<le> t \<and> t \<le> ex_end) ex_reviews)
         [] ex_start ex_end [''acme/widgets''] \<and>
   map (\<lambda>p. (username p, reviewCount p)) (reviewLeaderboard (process_hackathon_stats ex_prs ex_reviews [] ex_start ex_end [''acme/widgets'']))
     = [(''alice'', 1), (''carol'', 1)] \<and>
   map rv_login (filter (\<lambda>r. \<exists>t. rv_submitted_at r = Some t \<and> ex_start \<le> t \<and> t \<le> ex_end)
      ex_reviews) = [''carol'', ''carol'', ''github-copilot'', ''alice'']"
proof -
  have a: "map (\<lambda>p. (username p, reviewCount p)) (reviewLeaderboard (process_hackathon_stats ex_prs ex_reviews [] ex_start ex_end [''acme/widgets'']))
     = [(''alice'', 1), (''carol'', 1)]"
    by code_simp
  have b: "map rv_login (filter (\<lambda>r. \<exists>t. rv_submitted_at r = Some t \<and> ex_start \<le> t \<and> t \<le> ex_end)
      ex_reviews) = [''carol'', ''carol'', ''github-copilot'', ''alice'']"
    by (simp add: ex_reviews_def mk_review_def ex_start_def ex_end_def)
  from review_window_filter [of ex_prs ex_reviews "[]" ex_start ex_end "[''acme/widgets'']"]
    a b show ?thesis by blast
qed

section \<open>Properties of the fetcher\<close>








section \<open>Properties of the run\<close>

subsection \<open>The organization cache\<close>

lemma quiet_snoc:
  assumes "quiet_after_cached log"
    and "\<And>org. Cached org \<in> set log \<Longrightarrow> ev \<noteq> Cached org \<and> (\<forall>r. ev \<noteq> Fetched org r)"
  shows "quiet_after_cached (log @ [ev])"
  unfolding quiet_after_cached_def
proof (intro allI impI)
  fix i j org
  assume h: "i < j \<and> j < length (log @ [ev]) \<and> (log @ [ev]) ! i = Cached org"
  then have i: "i < length log" and ci: "log ! i = Cached org"
    by (auto simp: nth_append)
  show "(log @ [ev]) ! j \<noteq> Cached org \<and> (\<forall>r. (log @ [ev]) ! j \<noteq> Fetched org r)"
  proof (cases "j < length log")
    case True
    with assms(1) h ci show ?thesis
      by (auto simp: quiet_after_cached_def nth_append)
  next
    case False
    with h have "(log @ [ev]) ! j = ev" by (auto simp: nth_append)
    moreover from i ci have "Cached org \<in> set log" by (metis nth_mem)
    ultimately show ?thesis using assms(2) by simp
  qed
qed

lemma filter_none: "x \<notin> set xs \<Longrightarrow> filter (\<lambda>ev. ev = x) xs = []"
  by (induction xs) auto

lemma log_inv_org_repos_of:
  assumes "log_inv st"
  shows "log_inv (snd (org_repos_of w org st))"
proof (cases "map_of (org_repos_cache st) org")
  case (Some rs)
  with assms show ?thesis by (simp add: org_repos_of_def)
next
  case None
  with assms have fresh: "Cached org \<notin> set (org_log st)"
    by (simp add: log_inv_def)
  from assms have q: "quiet_after_cached (org_log st)" by (simp add: log_inv_def)
  have q1: "\<And>r. quiet_after_cached (org_log st @ [Fetched org r])"
    using q fresh by (intro quiet_snoc) auto
  have q2: "\<And>r. quiet_after_cached (org_log st @ [Fetched org r, Cached org])"
    using quiet_snoc [OF q1, of _ "Cached org"] fresh by auto
  show ?thesis
  proof (cases "w_org_repos w org (length (filter is_fetch (org_log st)))")
    case Raises
    with None assms q1 show ?thesis
      by (auto simp: org_repos_of_def log_inv_def)
  next
    case (Returns rs)
    show ?thesis
    proof (cases "rs = []")
      case True
      with None Returns assms q1 show ?thesis
        by (auto simp: org_repos_of_def log_inv_def)
    next
      case False
      have upd: "\<And>o'. map_of (AList.update org rs (org_repos_cache st)) o' = None \<longleftrightarrow>
          o' \<noteq> org \<and> map_of (org_repos_cache st) o' = None"
        by (simp add: update_conv')
      from False None Returns assms q2 fresh show ?thesis
        by (auto simp: org_repos_of_def log_inv_def upd filter_none)
    qed
  qed
qed

lemma log_inv_resolve:
  "log_inv st \<Longrightarrow> log_inv (snd (resolve_repositories w explicit organization st))"
proof -
  assume inv: "log_inv st"
  show ?thesis
  proof (cases organization)
    case None
    with inv show ?thesis by (simp add: resolve_repositories_def)
  next
    case (Some org)
    obtain rs st1 where r: "org_repos_of w org st = (rs, st1)"
      by (cases "org_repos_of w org st")
    with log_inv_org_repos_of [OF inv, of w org] have "log_inv st1" by simp
    with inv Some r show ?thesis
      by (simp add: resolve_repositories_def)
  qed
qed

lemma snd_process_hackathon:
  "snd (process_hackathon w h st) = st \<or>
   snd (process_hackathon w h st)
     = snd (resolve_repositories w (hk_repositories h) (hk_organization h) st)"
  by (auto simp: process_hackathon_def Let_def split: option.splits field.splits sum.splits
      prod.splits)

lemma log_inv_process:
  "log_inv st \<Longrightarrow> log_inv (snd (process_hackathon w h st))"
  using snd_process_hackathon [of w h st] log_inv_resolve [of st w "hk_repositories h" "hk_organization h"]
  by auto

lemma main_step_log:
  "org_log (snd (main_step w h st)) = org_log st \<and>
     org_repos_cache (snd (main_step w h st)) = org_repos_cache st \<or>
   org_log (snd (main_step w h st)) = org_log (snd (process_hackathon w h st)) \<and>
     org_repos_cache (snd (main_step w h st)) = org_repos_cache (snd (process_hackathon w h st))"
  by (auto simp: main_step_def Let_def split: sum.splits option.splits prod.splits)

lemma log_inv_cong:
  "org_log st' = org_log st \<Longrightarrow> org_repos_cache st' = org_repos_cache st \<Longrightarrow>
   log_inv st \<Longrightarrow> log_inv st'"
  by (simp add: log_inv_def)

lemma log_inv_main_step: "log_inv st \<Longrightarrow> log_inv (snd (main_step w h st))"
  using main_step_log [of w h st] log_inv_process [of st w h]
  by (metis log_inv_cong)

lemma log_inv_main_loop: "log_inv st \<Longrightarrow> log_inv (snd (main_loop w hs st))"
proof (induction hs arbitrary: st)
  case Nil
  then show ?case by simp
next
  case (Cons h hs)
  from Cons.prems have inv1: "log_inv (snd (main_step w h st))"
    by (rule log_inv_main_step)
  show ?case
  proof (cases "fst (main_step w h st)")
    case None
    then have "main_loop w (h # hs) st = main_loop w hs (snd (main_step w h st))"
      by (cases "main_step w h st") simp
    with Cons.IH [OF inv1] show ?thesis by simp
  next
    case (Some e)
    then have "snd (main_loop w (h # hs) st) = snd (main_step w h st)"
      by (cases "main_step w h st") simp
    with inv1 show ?thesis by simp
  qed
qed

lemma log_inv_main: "log_inv (snd (main w hackathons disk))"
proof -
  let ?st0 = "\<lparr>files = disk, org_repos_cache = [], org_log = [], stats_json = None\<rparr>"
  have inv0: "log_inv ?st0"
    by (simp add: log_inv_def quiet_after_cached_def)
  from log_inv_main_loop [OF inv0, of w hackathons]
  show ?thesis
    by (auto simp: main_def Let_def log_inv_def split: prod.splits option.splits)
qed

text \<open>
  C7, as stated, fails on the code: a listing is stored in the cache only when it is not
  empty, so an organization whose listing is empty (or whose retrieval fails) is fetched
  again for every event that references it.
\<close>

theorem empty_listing_refetched_counterexample:
  "org_log (snd (main w_quiet ghost_events []))
     = [Fetched ''ghost'' (Returns []), Fetched ''ghost'' (Returns [])]"
  by code_simp

text \<open>
  C7, amended: within one run, for every organization, the cache entry is written at most
  once; at most one fetch of its listing returns a listing that is not empty; and after
  the entry was written the organization is neither fetched nor written again, whatever
  the number of events that reference it.
\<close>

theorem org_cache_written_once:
  "(\<forall>org. length (filter (\<lambda>ev. ev = Cached org) (org_log (snd (main w hackathons disk)))) \<le> 1) \<and>
   (\<forall>org. length (filter (\<lambda>ev. \<exists>rs. rs \<noteq> [] \<and> ev = Fetched org (Returns rs))
                    (org_log (snd (main w hackathons disk)))) \<le> 1) \<and>
   (\<forall>i j org. i < j \<and> j < length (org_log (snd (main w hackathons disk))) \<and>
        org_log (snd (main w hackathons disk)) ! i = Cached org \<longrightarrow>
        org_log (snd (main w hackathons disk)) ! j \<noteq> Cached org \<and>
        (\<forall>r. org_log (snd (main w hackathons disk)) ! j \<noteq> Fetched org r))"
  using log_inv_main [of w hackathons disk]
  unfolding log_inv_def quiet_after_cached_def by (intro conjI) (simp, simp, blast)

theorem org_cache_written_once_witness:
  "org_log (snd (main w_quiet acme_events []))
     = [Fetched ''acme'' (Returns [''acme/widgets'', ''acme/gadgets'']), Cached ''acme''] \<and>
   length (filter (\<lambda>ev. ev = Cached ''acme'') (org_log (snd (main w_quiet acme_events [])))) \<le> 1 \<and>
   length (filter (\<lambda>ev. \<exists>rs. rs \<noteq> [] \<and> ev = Fetched ''acme'' (Returns rs))
             (org_log (snd (main w_quiet acme_events [])))) \<le> 1"
proof -
  have ev: "org_log (snd (main w_quiet acme_events []))
     = [Fetched ''acme'' (Returns [''acme/widgets'', ''acme/gadgets'']), Cached ''acme'']"
    by code_simp
  from org_cache_written_once [of w_quiet acme_events "[]"]
  have "length (filter (\<lambda>ev. ev = Cached ''acme'') (org_log (snd (main w_quiet acme_events [])))) \<le> 1"
    and "length (filter (\<lambda>ev. \<exists>rs. rs \<noteq> [] \<and> ev = Fetched ''acme'' (Returns rs))
             (org_log (snd (main w_quiet acme_events [])))) \<le> 1"
    by blast+
  with ev show ?thesis by blast
qed

subsection \<open>Resolution of the repositories\<close>









subsection \<open>Failure of one event\<close>

lemma main_step_active: "hk_endTime h = Value t \<Longrightarrow> fst (main_step w h st) = None"
  by (auto simp: main_step_def Let_def is_hackathon_active_def
      split: sum.splits option.splits prod.splits)

lemma main_loop_completes:
  "\<forall>h \<in> set hs. \<exists>t. hk_endTime h = Value t \<Longrightarrow> fst (main_loop w hs st) = None"
proof (induction hs arbitrary: st)
  case Nil
  then show ?case by simp
next
  case (Cons h hs)
  then obtain t where "hk_endTime h = Value t" by auto
  then have "fst (main_step w h st) = None" by (rule main_step_active)
  then have "main_loop w (h # hs) st = main_loop w hs (snd (main_step w h st))"
    by (cases "main_step w h st") simp
  with Cons show ?case by simp
qed

lemma main_completes:
  assumes "hackathons \<noteq> []" and "\<forall>h \<in> set hackathons. \<exists>t. hk_endTime h = Value t"
  shows "fst (main w hackathons disk) = None \<and>
         stats_json (snd (main w hackathons disk)) = Some (summary_of_run w hackathons)"
  using assms(1) main_loop_completes [OF assms(2), of w
      "\<lparr>files = disk, org_repos_cache = [], org_log = [], stats_json = None\<rparr>"]
  by (cases "main_loop w hackathons
      \<lparr>files = disk, org_repos_cache = [], org_log = [], stats_json = None\<rparr>")
    (simp add: main_def)

text \<open>
  C9: a failure inside \<open>process_hackathon\<close> is caught in the round of the event, and when
  every event carries an end time that parses, the run reaches its end and writes the
  summary (\<open>main_completes\<close>). But \<open>is_hackathon_active\<close> is called before the \<^verbatim>\<open>try\<close>
  of the round: for an event without an end time the exception leaves \<open>main\<close>, the events
  after it are not processed and the summary is not written. An event without a start time,
  which fails inside \<open>process_hackathon\<close>, does not stop the run.
\<close>

theorem missing_end_time_aborts_run:
  "fst (main w_quiet [hk_no_end, hk_ok] []) = Some AttributeError \<and>
   stats_json (snd (main w_quiet [hk_no_end, hk_ok] [])) = None \<and>
   files (snd (main w_quiet [hk_no_end, hk_ok] [])) = [] \<and>
   fst (main w_quiet [hk_no_start, hk_ok] []) = None \<and>
   stats_json (snd (main w_quiet [hk_no_start, hk_ok] []))
     = Some (summary_of_run w_quiet [hk_no_start, hk_ok]) \<and>
   map fst (files (snd (main w_quiet [hk_no_start, hk_ok] []))) = [''winter'']"
  by code_simp

end
